theory Spec2Isabelle
  imports Complex_Main "HOL-Library.Char_ord" "HOL-Library.List_Lexorder"
    "HOL-Library.Product_Lexorder"
begin

section \<open>NAVI-CA: change analysis pipeline\<close>

text \<open>
  A shallow embedding of the analysis core of NAVI-CA: the object parser
  (\<^verbatim>\<open>navica/core/parser.py\<close>), the application matcher
  (\<^verbatim>\<open>navica/core/mapping.py\<close>), the overlap query of the history store
  (\<^verbatim>\<open>navica/data/db.py\<close>) and the risk scorer (\<^verbatim>\<open>navica/core/scoring.py\<close>).

  Conventions. Python \<^verbatim>\<open>str\<close> is \<^typ>\<open>string\<close>, restricted to ASCII text: upper-casing,
  white space and line boundaries are those of the ASCII range. Strings are ordered as Python
  orders them, lexicographically by character code. An exception is a value of type
  \<open>error\<close>, and a function that can raise returns \<open>error + 'a\<close>. Calls into the standard
  library whose code is not part of the repository (\<^verbatim>\<open>json.loads\<close>,
  \<^verbatim>\<open>datetime.fromisoformat\<close>, \<^verbatim>\<open>csv.DictReader\<close>, \<^verbatim>\<open>json.dumps\<close>) are
  parameters of the functions that call them. The floats of the scorer are IEEE doubles
  with their rounding; the impact score of the matcher is the exact quotient.
\<close>

subsection \<open>Exceptions and decoded JSON documents\<close>

datatype error = OverflowError | TypeError | AttributeError | ValueError | JSONDecodeError

text \<open>What \<^verbatim>\<open>json.loads\<close> returns: \<^verbatim>\<open>None\<close>, a bool, a number, a string, a list or a dict.\<close>

datatype json =
    JNull
  | JBool bool
  | JInt int
  | JFloat rat
  | JStr string
  | JArr "json list"
  | JObj "(string \<times> json) list"

text \<open>Python truth value of a decoded document (\<^verbatim>\<open>if v\<close>, \<^verbatim>\<open>not v\<close>, \<^verbatim>\<open>v or d\<close>).\<close>

fun truthy :: "json \<Rightarrow> bool" where
  "truthy JNull = False"
| "truthy (JBool b) = b"
| "truthy (JInt n) = (n \<noteq> 0)"
| "truthy (JFloat q) = (q \<noteq> 0)"
| "truthy (JStr s) = (s \<noteq> [])"
| "truthy (JArr xs) = (xs \<noteq> [])"
| "truthy (JObj kvs) = (kvs \<noteq> [])"

text \<open>Lists and dicts cannot be members of a Python set.\<close>

fun hashable :: "json \<Rightarrow> bool" where
  "hashable (JArr xs) = False"
| "hashable (JObj kvs) = False"
| "hashable v = True"

text \<open>\<^verbatim>\<open>d.get(k, default)\<close>: only a dict has the method.\<close>

fun py_get :: "json \<Rightarrow> string \<Rightarrow> json \<Rightarrow> error + json" where
  "py_get (JObj kvs) k d = Inr (case map_of kvs k of None \<Rightarrow> d | Some v \<Rightarrow> v)"
| "py_get v k d = Inl AttributeError"

text \<open>
  \<^verbatim>\<open>for x in v\<close>: a list yields its items, a string its characters, a dict its keys;
  nothing else is iterable.
\<close>

fun py_iter :: "json \<Rightarrow> error + json list" where
  "py_iter (JArr xs) = Inr xs"
| "py_iter (JStr s) = Inr (map (\<lambda>c. JStr [c]) s)"
| "py_iter (JObj kvs) = Inr (map (\<lambda>kv. JStr (fst kv)) kvs)"
| "py_iter v = Inl TypeError"

text \<open>\<^verbatim>\<open>set(items)\<close>, kept as the list of its members: raises on an unhashable member.\<close>

definition py_set :: "json list \<Rightarrow> error + json list" where
  "py_set vs = (if list_all hashable vs then Inr vs else Inl TypeError)"

subsection \<open>Objects\<close>

record obj =
  obj_class :: string
  obj_type :: string
  obj_name :: string
  subtype :: "string option"
  package :: "string option"
  component :: "string option"
  raw :: string
  normalized_key :: string

subsection \<open>History store: \<^verbatim>\<open>NavicaDB.find_overlaps\<close>\<close>

text \<open>
  A row of table \<^verbatim>\<open>changes\<close>. The table is the list of its rows in the order the
  \<^verbatim>\<open>SELECT\<close> scans them; \<^verbatim>\<open>change_id\<close> is its primary key.
\<close>

record row =
  change_id :: string
  generated_at :: "string option"
  findings_json :: string

record overlap =
  other_change_id :: string
  shared_object_count :: nat
  shared_objects :: "string list"

text \<open>
  A \<^verbatim>\<open>datetime\<close> in microseconds: a naive one counts wall-clock time from
  0001-01-01T00:00, an aware one is the UTC instant counted from 0001-01-01T00:00 UTC.
\<close>

datatype datetime = Naive int | Aware int

definition day_us :: int where
  "day_us = 86400 * 1000000"

text \<open>\<^verbatim>\<open>APP_TZ = timezone(timedelta(hours=-5))\<close>, as an offset in microseconds.\<close>

definition APP_TZ :: int where
  "APP_TZ = - 5 * 3600 * 1000000"

text \<open>
  \<^verbatim>\<open>cutoff = now - timedelta(days=window_days)\<close> for the aware \<^verbatim>\<open>now\<close> in \<^verbatim>\<open>APP_TZ\<close>:
  \<^verbatim>\<open>timedelta\<close> takes at most 999999999 days either way, and the local date of the
  difference has to stay within the years 1 to 9999 (3652059 days).
\<close>

definition cutoff_of :: "int \<Rightarrow> int \<Rightarrow> error + int" where
  "cutoff_of now window_days =
     (if \<bar>window_days\<bar> > 999999999 then Inl OverflowError
      else let local = now + APP_TZ - window_days * day_us
           in if 0 \<le> local \<and> local < 3652059 * day_us then Inr (local - APP_TZ)
              else Inl OverflowError)"

text \<open>\<^verbatim>\<open>dt < cutoff\<close> with an aware cutoff: a naive \<^verbatim>\<open>dt\<close> cannot be compared.\<close>

fun dt_before :: "datetime \<Rightarrow> int \<Rightarrow> error + bool" where
  "dt_before (Aware t) cutoff = Inr (t < cutoff)"
| "dt_before (Naive t) cutoff = Inl TypeError"

text \<open>
  \<^verbatim>\<open>[r.get("normalized_key") for r in ... if r.get("normalized_key")]\<close>
\<close>

fun risk_keys :: "json list \<Rightarrow> error + json list" where
  "risk_keys [] = Inr []"
| "risk_keys (r # rs) =
     (case py_get r ''normalized_key'' JNull of
        Inl e \<Rightarrow> Inl e
      | Inr v \<Rightarrow>
          (case risk_keys rs of
             Inl e \<Rightarrow> Inl e
           | Inr vs \<Rightarrow> Inr (if truthy v then v # vs else vs)))"

text \<open>\<^verbatim>\<open>[o.get("normalized_key") for o in other.get("objects", [])]\<close>\<close>

fun stored_object_keys :: "json list \<Rightarrow> error + json list" where
  "stored_object_keys [] = Inr []"
| "stored_object_keys (r # rs) =
     (case py_get r ''normalized_key'' JNull of
        Inl e \<Rightarrow> Inl e
      | Inr v \<Rightarrow>
          (case stored_object_keys rs of
             Inl e \<Rightarrow> Inl e
           | Inr vs \<Rightarrow> Inr (v # vs)))"

text \<open>
  The keys of a stored change: those of its \<^verbatim>\<open>object_risks\<close>, and when there are none
  and \<^verbatim>\<open>objects\<close> is present, those of its \<^verbatim>\<open>objects\<close>.
\<close>

definition other_objs :: "json \<Rightarrow> error + json list" where
  "other_objs other =
     (case py_get other ''object_risks'' (JArr []) of
        Inl e \<Rightarrow> Inl e
      | Inr risks \<Rightarrow>
     (case py_iter risks of
        Inl e \<Rightarrow> Inl e
      | Inr rs \<Rightarrow>
     (case risk_keys rs of
        Inl e \<Rightarrow> Inl e
      | Inr ks \<Rightarrow>
     (case py_set ks of
        Inl e \<Rightarrow> Inl e
      | Inr s \<Rightarrow>
     (case py_get other ''objects'' JNull of
        Inl e \<Rightarrow> Inl e
      | Inr objs \<Rightarrow>
          if s = [] \<and> truthy objs then
            (case py_iter objs of
               Inl e \<Rightarrow> Inl e
             | Inr os \<Rightarrow>
            (case stored_object_keys os of
               Inl e \<Rightarrow> Inl e
             | Inr ks2 \<Rightarrow> py_set ks2))
          else Inr s)))))"

text \<open>
  \<^verbatim>\<open>obj_set = set([o.get("normalized_key") for o in objects if o.get("normalized_key")])\<close>
\<close>

definition obj_set :: "obj list \<Rightarrow> string list" where
  "obj_set objects = filter (\<lambda>k. k \<noteq> []) (map normalized_key objects)"

text \<open>\<^verbatim>\<open>shared = sorted(list(obj_set.intersection(other_objs)))\<close>\<close>

definition shared_keys :: "string list \<Rightarrow> json list \<Rightarrow> string list" where
  "shared_keys os others = sort (remdups (filter (\<lambda>k. JStr k \<in> set others) os))"

text \<open>
  The body of the \<^verbatim>\<open>try\<close> block for one row: \<open>Inr None\<close> is \<^verbatim>\<open>continue\<close> or an
  empty intersection, \<open>Inr (Some r)\<close> the record appended.
\<close>

definition row_body ::
  "(string \<Rightarrow> error + datetime) \<Rightarrow> (string \<Rightarrow> error + json) \<Rightarrow> int \<Rightarrow> string list \<Rightarrow> row
     \<Rightarrow> error + overlap option" where
  "row_body fromisoformat loads cutoff os r =
     (let too_old =
        (case generated_at r of
           None \<Rightarrow> Inr False
         | Some g \<Rightarrow>
             if g = [] then Inr False
             else (case fromisoformat g of
                     Inl e \<Rightarrow> Inl e
                   | Inr dt \<Rightarrow> dt_before dt cutoff))
      in case too_old of
           Inl e \<Rightarrow> Inl e
         | Inr True \<Rightarrow> Inr None
         | Inr False \<Rightarrow>
             (case loads (findings_json r) of
                Inl e \<Rightarrow> Inl e
              | Inr other \<Rightarrow>
                  (case other_objs other of
                     Inl e \<Rightarrow> Inl e
                   | Inr others \<Rightarrow>
                       let shared = shared_keys os others
                       in if shared \<noteq> [] then
                            Inr (Some \<lparr>other_change_id = change_id r,
                                       shared_object_count = length shared,
                                       shared_objects = take 200 shared\<rparr>)
                          else Inr None)))"

text \<open>\<^verbatim>\<open>try: ... except Exception: continue\<close>\<close>

definition scan_row ::
  "(string \<Rightarrow> error + datetime) \<Rightarrow> (string \<Rightarrow> error + json) \<Rightarrow> int \<Rightarrow> string list \<Rightarrow> row
     \<Rightarrow> overlap option" where
  "scan_row fromisoformat loads cutoff os r =
     (case row_body fromisoformat loads cutoff os r of
        Inl e \<Rightarrow> None
      | Inr res \<Rightarrow> res)"

text \<open>
  \<^verbatim>\<open>overlaps.sort(key=lambda x: x["shared_object_count"], reverse=True)\<close>: Python's sort
  is stable, also when reversed.
\<close>

definition sort_overlaps :: "overlap list \<Rightarrow> overlap list" where
  "sort_overlaps xs = sort_key (\<lambda>x. - int (shared_object_count x)) xs"

definition find_overlaps ::
  "(string \<Rightarrow> error + datetime) \<Rightarrow> (string \<Rightarrow> error + json) \<Rightarrow> int \<Rightarrow> row list
     \<Rightarrow> string \<Rightarrow> obj list \<Rightarrow> int \<Rightarrow> error + overlap list" where
  "find_overlaps fromisoformat loads now db cid objects window_days =
     (let os = obj_set objects;
          rows = filter (\<lambda>r. change_id r \<noteq> cid) db
      in case cutoff_of now window_days of
           Inl e \<Rightarrow> Inl e
         | Inr cutoff \<Rightarrow>
             Inr (take 25 (sort_overlaps
                    (List.map_filter (scan_row fromisoformat loads cutoff os) rows))))"

subsection \<open>Text helpers\<close>

text \<open>\<^verbatim>\<open>str.upper\<close> on ASCII text.\<close>

definition upper_char :: "char \<Rightarrow> char" where
  "upper_char c =
     (if CHR ''a'' \<le> c \<and> c \<le> CHR ''z'' then char_of (of_char c - (32::nat)) else c)"

definition upper :: "string \<Rightarrow> string" where
  "upper s = map upper_char s"

text \<open>
  \<^verbatim>\<open>str.isspace\<close>, which is also the class \<^verbatim>\<open>\s\<close> of \<^verbatim>\<open>re\<close>: tab, line feed,
  vertical tab, form feed, carriage return, the separators 28 to 31, and the space.
\<close>

definition is_space :: "char \<Rightarrow> bool" where
  "is_space c = (let n = (of_char c :: nat) in (9 \<le> n \<and> n \<le> 13) \<or> (28 \<le> n \<and> n \<le> 32))"

definition strip :: "string \<Rightarrow> string" where
  "strip s = rev (dropWhile is_space (rev (dropWhile is_space s)))"

text \<open>\<^verbatim>\<open>str.startswith(("Z", "Y"))\<close>\<close>

definition startswith_ZY :: "string \<Rightarrow> bool" where
  "startswith_ZY s = (case s of [] \<Rightarrow> False | c # cs \<Rightarrow> c = CHR ''Z'' \<or> c = CHR ''Y'')"

text \<open>\<^verbatim>\<open>str(n)\<close> for a count.\<close>

fun str_nat :: "nat \<Rightarrow> string" where
  "str_nat n =
     (if n < 10 then [char_of (48 + n)]
      else str_nat (n div 10) @ [char_of (48 + n mod 10)])"

declare str_nat.simps [simp del]

subsection \<open>Application matcher: \<^verbatim>\<open>map_objects_to_apps\<close>\<close>

text \<open>
  A catalog entry. The optional keys of the entry are options; the three lists of
  \<^verbatim>\<open>match_rules\<close> are empty when the key is absent (\<^verbatim>\<open>rules.get(k, []) or []\<close>).
  The criticality of an entry is an integer.
\<close>

record app =
  cat_app_id :: "string option"
  cat_display_name :: "string option"
  cat_criticality :: "int option"
  cat_tags :: "string list option"
  packages :: "string list"
  namespaces :: "string list"
  object_types :: "string list"

record impacted_app =
  app_id :: "string option"
  display_name :: "string option"
  impact_score :: rat
  matched_objects :: nat
  top_objects :: "string list"
  tags :: "string list"
  criticality :: int

text \<open>
  \<^verbatim>\<open>_match_any(patterns, value)\<close>; \<open>fnmatch\<close> is the library's \<^verbatim>\<open>fnmatch(name, pat)\<close>.
\<close>

definition match_any :: "(string \<Rightarrow> string \<Rightarrow> bool) \<Rightarrow> string list \<Rightarrow> string \<Rightarrow> bool" where
  "match_any fnmatch patterns v =
     (if patterns = [] then False
      else list_ex (\<lambda>pat. fnmatch (upper v) (upper pat)) patterns)"

text \<open>\<^verbatim>\<open>(o.get("package") or "")\<close>\<close>

definition or_empty :: "string option \<Rightarrow> string" where
  "or_empty v = (case v of None \<Rightarrow> [] | Some s \<Rightarrow> s)"

text \<open>The test of the inner loop: is object \<open>x\<close> appended to \<^verbatim>\<open>matched\<close> for entry \<open>a\<close>?\<close>

definition object_matches :: "(string \<Rightarrow> string \<Rightarrow> bool) \<Rightarrow> app \<Rightarrow> obj \<Rightarrow> bool" where
  "object_matches fnmatch a x =
     (let pkg_pats = packages a;
          ns_pats = namespaces a;
          obj_types = map upper (object_types a);
          otype = upper (obj_type x);
          oname = upper (obj_name x);
          opkg = upper (or_empty (package x));
          type_ok = (obj_types = [] \<or> otype \<in> set obj_types);
          ns_ok = (ns_pats = [] \<or> match_any fnmatch ns_pats oname);
          pkg_ok = (pkg_pats = [] \<or> match_any fnmatch pkg_pats opkg)
      in type_ok \<and> (ns_ok \<or> pkg_ok))"

definition matched_of :: "(string \<Rightarrow> string \<Rightarrow> bool) \<Rightarrow> obj list \<Rightarrow> app \<Rightarrow> obj list" where
  "matched_of fnmatch objects a = filter (object_matches fnmatch a) objects"

text \<open>The body of the outer loop: the result appended for entry \<open>a\<close>, if any.\<close>

definition app_result :: "(string \<Rightarrow> string \<Rightarrow> bool) \<Rightarrow> obj list \<Rightarrow> app \<Rightarrow> impacted_app option" where
  "app_result fnmatch objects a =
     (let matched = matched_of fnmatch objects a
      in if matched \<noteq> [] then
           Some \<lparr>app_id = cat_app_id a,
                 display_name = (case cat_display_name a of None \<Rightarrow> cat_app_id a | Some d \<Rightarrow> Some d),
                 impact_score =
                   min 1 (rat_of_nat (length matched) / rat_of_nat (max 1 (length objects))),
                 matched_objects = length matched,
                 top_objects = map normalized_key (take 10 matched),
                 tags = (case cat_tags a of None \<Rightarrow> [] | Some t \<Rightarrow> t),
                 criticality = (case cat_criticality a of None \<Rightarrow> 3 | Some c \<Rightarrow> c)\<rparr>
         else None)"

text \<open>
  \<^verbatim>\<open>results.sort(key=lambda x: (impact_score, criticality), reverse=True)\<close>: a stable
  descending sort on the pair, ordered lexicographically.
\<close>

definition app_key :: "impacted_app \<Rightarrow> rat \<times> int" where
  "app_key x = (impact_score x, criticality x)"

definition sort_apps :: "impacted_app list \<Rightarrow> impacted_app list" where
  "sort_apps xs = sort_key (\<lambda>x. (- impact_score x, - criticality x)) xs"

definition map_objects_to_apps ::
  "(string \<Rightarrow> string \<Rightarrow> bool) \<Rightarrow> obj list \<Rightarrow> app list \<Rightarrow> impacted_app list" where
  "map_objects_to_apps fnmatch objects apps =
     sort_apps (List.map_filter (app_result fnmatch objects) apps)"

subsection \<open>Shell patterns: \<^verbatim>\<open>fnmatch\<close>\<close>

text \<open>
  The matcher of the standard library on a case-sensitive platform, where
  \<^verbatim>\<open>fnmatch(name, pat)\<close> is \<^verbatim>\<open>fnmatchcase\<close>: \<^verbatim>\<open>*\<close> is any text, \<^verbatim>\<open>?\<close> any
  character, \<^verbatim>\<open>[seq]\<close> a character of \<^verbatim>\<open>seq\<close> and \<^verbatim>\<open>[!seq]\<close> one outside it.
\<close>

datatype glob =
    GStar
  | GAny
  | GLit char
  | GSet bool "char list" "(char \<times> char) list"

text \<open>
  The text between \<^verbatim>\<open>[\<close> and its closing \<^verbatim>\<open>]\<close>, with the pattern after it: a
  \<^verbatim>\<open>]\<close> right after \<^verbatim>\<open>[\<close> or \<^verbatim>\<open>[!\<close> does not close.
\<close>

definition find_close :: "string \<Rightarrow> (string \<times> string) option" where
  "find_close p =
     (let (pre1, p1) = (case p of c # cs \<Rightarrow> if c = CHR ''!'' then ([c], cs) else ([], p) | [] \<Rightarrow> ([], p));
          (pre2, p2) = (case p1 of c # cs \<Rightarrow> if c = CHR '']'' then (pre1 @ [c], cs) else (pre1, p1)
                                 | [] \<Rightarrow> (pre1, p1));
          mid = takeWhile (\<lambda>c. c \<noteq> CHR '']'') p2;
          r = dropWhile (\<lambda>c. c \<noteq> CHR '']'') p2
      in case r of [] \<Rightarrow> None | c # rest \<Rightarrow> Some (pre2 @ mid, rest))"

text \<open>
  The chunks of a set: a hyphen splits, unless it is the first character or one of the
  two characters after a splitting hyphen.
\<close>

fun chunks_from :: "nat \<Rightarrow> string \<Rightarrow> string \<Rightarrow> string list" where
  "chunks_from skip acc [] = [rev acc]"
| "chunks_from skip acc (c # cs) =
     (if c = CHR ''-'' \<and> skip = 0 then rev acc # chunks_from 2 [] cs
      else chunks_from (skip - 1) (c # acc) cs)"

text \<open>A hyphen at the very end is a member of the set.\<close>

fun close_chunks :: "string list \<Rightarrow> string list" where
  "close_chunks [] = []"
| "close_chunks [c] = [c]"
| "close_chunks [c, d] = (if d = [] then [c @ ''-''] else [c, d])"
| "close_chunks (c # cs) = c # close_chunks cs"

text \<open>
  Empty ranges are dropped, from the last one to the first: where a chunk ends above the
  start of the next one, both end points go and the two chunks become one.
\<close>

fun drop_empty_ranges :: "string list \<Rightarrow> string list" where
  "drop_empty_ranges [] = []"
| "drop_empty_ranges [c] = [c]"
| "drop_empty_ranges (c # cs) =
     (case drop_empty_ranges cs of
        [] \<Rightarrow> [c]
      | d # ds \<Rightarrow>
          if c \<noteq> [] \<and> d \<noteq> [] \<and> last c > hd d then (butlast c @ tl d) # ds
          else c # d # ds)"

text \<open>
  The members of the chunks: between two chunks stands a range from the last character of
  the first to the first character of the second; every other character is a member.
\<close>

fun chunk_singles :: "bool \<Rightarrow> string list \<Rightarrow> char list" where
  "chunk_singles first [] = []"
| "chunk_singles first [c] = (if first then c else tl c)"
| "chunk_singles first (c # cs) =
     (if first then butlast c else butlast (tl c)) @ chunk_singles False cs"

fun chunk_ranges :: "string list \<Rightarrow> (char \<times> char) list" where
  "chunk_ranges (c # d # cs) = (last c, hd d) # chunk_ranges (d # cs)"
| "chunk_ranges cs = []"

definition set_of_stuff :: "string \<Rightarrow> glob" where
  "set_of_stuff stuff =
     (let neg = (case stuff of c # cs \<Rightarrow> c = CHR ''!'' | [] \<Rightarrow> False);
          body = (if neg then tl stuff else stuff);
          chunks = drop_empty_ranges (close_chunks (chunks_from 1 [] body))
      in GSet neg (chunk_singles True chunks) (chunk_ranges chunks))"

function translate :: "string \<Rightarrow> glob list" where
  "translate [] = []"
| "translate (c # p) =
     (if c = CHR ''*'' then GStar # translate p
      else if c = CHR ''?'' then GAny # translate p
      else if c = CHR ''['' then
        (case find_close p of
           None \<Rightarrow> GLit c # translate p
         | Some (stuff, rest) \<Rightarrow> set_of_stuff stuff # translate rest)
      else GLit c # translate p)"
  by pat_completeness auto
termination
proof (relation "measure length")
  fix c :: char and p :: string and x2 stuff rest
  assume "find_close p = Some x2" "(stuff, rest) = x2"
  then obtain p2 d where r: "dropWhile (\<lambda>c. c \<noteq> CHR '']'') p2 = d # rest"
    and p2: "length p2 \<le> length p"
    by (auto simp: find_close_def Let_def split: list.splits if_splits)
  have "length (dropWhile (\<lambda>c. c \<noteq> CHR '']'') p2) \<le> length p2"
    by (rule length_dropWhile_le)
  with r p2 show "(rest, c # p) \<in> measure length" by simp
qed simp_all

fun glob_match :: "glob list \<Rightarrow> string \<Rightarrow> bool" where
  "glob_match [] s = (s = [])"
| "glob_match (GStar # g) [] = glob_match g []"
| "glob_match (GStar # g) (c # s) = (glob_match g (c # s) \<or> glob_match (GStar # g) s)"
| "glob_match (GAny # g) [] = False"
| "glob_match (GAny # g) (c # s) = glob_match g s"
| "glob_match (GLit d # g) [] = False"
| "glob_match (GLit d # g) (c # s) = (c = d \<and> glob_match g s)"
| "glob_match (GSet neg singles ranges # g) [] = False"
| "glob_match (GSet neg singles ranges # g) (c # s) =
     (((c \<in> set singles \<or> list_ex (\<lambda>(lo, hi). lo \<le> c \<and> c \<le> hi) ranges) \<noteq> neg)
      \<and> glob_match g s)"

definition fnmatch :: "string \<Rightarrow> string \<Rightarrow> bool" where
  "fnmatch name pat = glob_match (translate pat) name"

subsection \<open>Risk scorer: \<^verbatim>\<open>score_change\<close>\<close>

text \<open>\<^verbatim>\<open>BASE_POINTS.get(otype, 3)\<close>\<close>

definition BASE_POINTS :: "(string \<times> int) list" where
  "BASE_POINTS =
     [(''PROG'', 6), (''REPS'', 6), (''REPT'', 6),
      (''CMOD'', 8), (''SMOD'', 8), (''ENHO'', 9), (''ENHS'', 9), (''SPOT'', 9),
      (''CLAS'', 7), (''INTF'', 7), (''FUGR'', 8), (''FUNC'', 8),
      (''TABL'', 10), (''VIEW'', 9), (''DDLS'', 9), (''DTEL'', 5), (''DOMA'', 5), (''TTYP'', 5)]"

definition base_points :: "string \<Rightarrow> int" where
  "base_points otype = (case map_of BASE_POINTS otype of None \<Rightarrow> 3 | Some b \<Rightarrow> b)"


text \<open>
  Python's \<^verbatim>\<open>round\<close> on a float, exact on the value it is given: to the nearest
  integer, a tie to the even one.
\<close>

definition py_round :: "rat \<Rightarrow> int" where
  "py_round x =
     (let f = \<lfloor>x\<rfloor>; d = x - of_int f
      in if d < 1 / 2 then f
         else if d > 1 / 2 then f + 1
         else if even f then f else f + 1)"

text \<open>
  Python's \<^verbatim>\<open>float\<close> is the IEEE 754 binary64 format. A finite double is the rational
  it denotes, and every operation returns the double nearest to the exact result, a tie
  going to the even significand. \<open>fl\<close> is that rounding: the argument is scaled to a
  significand of 53 bits and rounded there. The exponent range is left open: the scorer's
  values are 0 or lie between 3 and 24 times the number of objects, far inside it.
\<close>

type_synonym double = rat

text \<open>The number of binary digits of \<open>n\<close>.\<close>

function bits :: "int \<Rightarrow> nat" where
  "bits n = (if n \<le> 0 then 0 else Suc (bits (n div 2)))"
  by pat_completeness auto
termination
  by (relation "measure nat") auto

declare bits.simps [simp del]

definition pow2 :: "int \<Rightarrow> rat" where
  "pow2 e = (if 0 \<le> e then 2 ^ nat e else 1 / 2 ^ nat (- e))"

text \<open>
  The binary exponent of a positive rational \<open>a\<close>: the \<open>k\<close> with \<open>2^k \<le> a < 2^(k+1)\<close>.
  It is the difference of the digit counts of numerator and denominator, or one less.
\<close>

definition ilog2 :: "rat \<Rightarrow> int" where
  "ilog2 a =
     (let (p, q) = quotient_of a;
          k = int (bits p) - int (bits q)
      in if pow2 k \<le> a then k else k - 1)"

definition fl :: "rat \<Rightarrow> double" where
  "fl x =
     (if x = 0 then 0
      else let a = \<bar>x\<bar>;
               e = ilog2 a - 52;
               m = py_round (a / pow2 e)
           in sgn x * of_int m * pow2 e)"

text \<open>\<^verbatim>\<open>a + b\<close>, \<^verbatim>\<open>a * b\<close> and \<^verbatim>\<open>a / b\<close> on floats; an \<^verbatim>\<open>int\<close> operand is converted first.\<close>

definition fadd :: "double \<Rightarrow> double \<Rightarrow> double" where
  "fadd a b = fl (a + b)"

definition fmul :: "double \<Rightarrow> double \<Rightarrow> double" where
  "fmul a b = fl (a * b)"

definition fdiv :: "double \<Rightarrow> double \<Rightarrow> double" where
  "fdiv a b = fl (a / b)"

text \<open>\<^verbatim>\<open>float(n)\<close> for an \<^verbatim>\<open>int\<close>, and the literal \<^verbatim>\<open>1.3\<close>.\<close>

definition float_of_int :: "int \<Rightarrow> double" where
  "float_of_int n = fl (rat_of_int n)"

definition lit_1_3 :: double where
  "lit_1_3 = fl (13 / 10)"



text \<open>The keys listed in \<^verbatim>\<open>top_objects\<close> of an application of criticality 4 or more.\<close>

definition critical_object_set :: "impacted_app list \<Rightarrow> string set" where
  "critical_object_set impacted_apps =
     set (concat (map top_objects (filter (\<lambda>a. criticality a \<ge> 4) impacted_apps)))"

record object_risk =
  risk_key :: string
  risk_points :: int
  reasons :: "string list"

text \<open>
  The body of the loop over the objects: the points of one object before rounding
  (added to \<^verbatim>\<open>total_points\<close>) and its reasons.
\<close>

definition object_points ::
  "impacted_app list \<Rightarrow> (string \<rightharpoonup> nat) \<Rightarrow> obj \<Rightarrow> double \<times> string list" where
  "object_points impacted_apps counts x =
     (let nk = normalized_key x;
          otype = upper (obj_type x);
          base = base_points otype;
          (points, reasons) =
            (float_of_int base, [''type:'' @ (if otype = [] then ''UNK'' else otype)]);
          (points, reasons) =
            (if nk \<in> critical_object_set impacted_apps
             then (fmul points lit_1_3, reasons @ [''matched_critical_app''])
             else (points, reasons));
          n = (case counts nk of None \<Rightarrow> 0 | Some c \<Rightarrow> c);
          (points, reasons) =
            (if n = 1 then (fadd points (float_of_int 2), reasons @ [''shared_across_changes(1)''])
             else if n = 2 then (fadd points (float_of_int 5), reasons @ [''shared_across_changes(2)''])
             else if n \<ge> 3
               then (fadd points (float_of_int 9),
                     reasons @ [''shared_across_changes('' @ str_nat n @ '')''])
             else (points, reasons));
          (points, reasons) =
            (if length impacted_apps > 3 \<and> startswith_ZY (upper (obj_name x))
             then (fadd points (float_of_int 2), reasons @ [''wide_app_impact_hint''])
             else (points, reasons))
      in (points, reasons))"

definition raw_points :: "impacted_app list \<Rightarrow> (string \<rightharpoonup> nat) \<Rightarrow> obj \<Rightarrow> double" where
  "raw_points impacted_apps counts x = fst (object_points impacted_apps counts x)"


record summary =
  risk_score :: int
  risk_level_of :: string
  objects_total :: nat
  apps_impacted :: nat
  overlaps_found :: nat

record findings =
  navica_version :: string
  findings_change_id :: string
  findings_generated_at :: string
  findings_summary :: summary
  impacted_apps :: "impacted_app list"
  overlaps :: "overlap list"
  object_risks :: "object_risk list"
  findings_notes :: "string list"
  tester_scope_suggestions :: "string list"

text \<open>
  \<^verbatim>\<open>scale = 1.25\<close>;
  \<^verbatim>\<open>score = min(100, int(round((total_points / max(1, len(objects))) * scale * 10)))\<close>
\<close>

definition scale :: double where
  "scale = fl (5 / 4)"

definition aggregate_score :: "double \<Rightarrow> nat \<Rightarrow> int" where
  "aggregate_score total_points n =
     min 100
       (py_round
          (fmul (fmul (fdiv total_points (float_of_int (int (max 1 n)))) scale)
             (float_of_int 10)))"


subsection \<open>Object parser\<close>

text \<open>
  \<^verbatim>\<open>_norm(s) = (s or "").strip().upper()\<close>. The caller may pass any decoded value:
  a false one becomes the empty string, and among the others only a string has
  \<^verbatim>\<open>strip\<close>.
\<close>

definition norm :: "json \<Rightarrow> error + string" where
  "norm v =
     (if truthy v then (case v of JStr s \<Rightarrow> Inr (upper (strip s)) | _ \<Rightarrow> Inl AttributeError)
      else Inr [])"

text \<open>\<^verbatim>\<open>_norm(package) if package else None\<close>\<close>

definition norm_opt :: "json \<Rightarrow> error + string option" where
  "norm_opt v =
     (if truthy v then (case norm v of Inl e \<Rightarrow> Inl e | Inr s \<Rightarrow> Inr (Some s)) else Inr None)"

text \<open>\<^verbatim>\<open>_make_obj\<close>; \<open>raw\<close> is a string at every call.\<close>

definition make_obj :: "json \<Rightarrow> json \<Rightarrow> json \<Rightarrow> string \<Rightarrow> json \<Rightarrow> json \<Rightarrow> error + obj" where
  "make_obj oclass otype oname raw_line pkg compo =
     (case norm oclass of Inl e \<Rightarrow> Inl e | Inr c \<Rightarrow>
     (case norm otype of Inl e \<Rightarrow> Inl e | Inr t \<Rightarrow>
     (case norm oname of Inl e \<Rightarrow> Inl e | Inr n \<Rightarrow>
     (case norm_opt pkg of Inl e \<Rightarrow> Inl e | Inr p \<Rightarrow>
     (case norm_opt compo of Inl e \<Rightarrow> Inl e | Inr k \<Rightarrow>
        Inr \<lparr>obj_class = c, obj_type = t, obj_name = n, subtype = None,
             package = p, component = k,
             raw = (if raw_line \<noteq> [] then strip raw_line else []),
             normalized_key = c @ '':'' @ t @ '':'' @ n\<rparr>)))))"

text \<open>
  \<^verbatim>\<open>found[o["normalized_key"]] = o\<close> on a dict, which keeps its keys in the order of
  their first insertion.
\<close>

fun dict_set :: "(string \<times> 'v) list \<Rightarrow> string \<Rightarrow> 'v \<Rightarrow> (string \<times> 'v) list" where
  "dict_set [] k v = [(k, v)]"
| "dict_set ((k', v') # kvs) k v =
     (if k' = k then (k, v) # kvs else (k', v') # dict_set kvs k v)"

text \<open>
  The loop shared by the three modes: \<open>body\<close> is what one iteration does with its
  record, raising, skipping it (\<open>Inr None\<close>), or storing an object under its key.
\<close>

fun collect ::
  "('a \<Rightarrow> error + obj option) \<Rightarrow> 'a list \<Rightarrow> (string \<times> obj) list \<Rightarrow> error + (string \<times> obj) list" where
  "collect body [] found = Inr found"
| "collect body (x # xs) found =
     (case body x of
        Inl e \<Rightarrow> Inl e
      | Inr None \<Rightarrow> collect body xs found
      | Inr (Some ob) \<Rightarrow> collect body xs (dict_set found (normalized_key ob) ob))"

text \<open>\<^verbatim>\<open>list(found.values())\<close>\<close>

definition dict_values :: "error + (string \<times> obj) list \<Rightarrow> error + obj list" where
  "dict_values r = (case r of Inl e \<Rightarrow> Inl e | Inr found \<Rightarrow> Inr (map snd found))"

subsubsection \<open>Text mode\<close>

text \<open>
  \<^verbatim>\<open>str.splitlines\<close>: a line ends at a line feed, a carriage return (with the line feed
  after it), a vertical tab, a form feed, or a separator 28 to 30.
\<close>

definition is_linebreak :: "char \<Rightarrow> bool" where
  "is_linebreak c = (let n = (of_char c :: nat) in (10 \<le> n \<and> n \<le> 13) \<or> (28 \<le> n \<and> n \<le> 30))"

fun splitlines_from :: "string \<Rightarrow> string \<Rightarrow> string list" where
  "splitlines_from acc [] = (if acc = [] then [] else [rev acc])"
| "splitlines_from acc [c] = (if is_linebreak c then [rev acc] else [rev (c # acc)])"
| "splitlines_from acc (c # d # cs) =
     (if c = char_of (13::nat) \<and> d = char_of (10::nat) then rev acc # splitlines_from [] cs
      else if is_linebreak c then rev acc # splitlines_from [] (d # cs)
      else splitlines_from (c # acc) (d # cs))"

definition splitlines :: "string \<Rightarrow> string list" where
  "splitlines text = splitlines_from [] text"

text \<open>
  \<^verbatim>\<open>_ABAP_LINE_RE\<close>, compiled with \<^verbatim>\<open>re.IGNORECASE\<close>:
  \<^verbatim>\<open>(R3TR|LIMU)\s+([A-Z0-9_]{3,5})\s+([A-Z0-9_/\\\-~><=]+)\<close>.
\<close>

definition is_type_char :: "char \<Rightarrow> bool" where
  "is_type_char c =
     (let u = upper_char c
      in (CHR ''A'' \<le> u \<and> u \<le> CHR ''Z'') \<or> (CHR ''0'' \<le> u \<and> u \<le> CHR ''9'') \<or> u = CHR ''_'')"

definition is_name_char :: "char \<Rightarrow> bool" where
  "is_name_char c =
     (is_type_char c \<or>
      c \<in> set [CHR ''/'', CHR 0x5C, CHR ''-'', CHR ''~'', CHR ''>'', CHR ''<'', CHR ''=''])"

text \<open>The group \<^verbatim>\<open>obj_class\<close> at the head of \<open>s\<close>, with the text after it.\<close>

definition class_token :: "string \<Rightarrow> (string \<times> string) option" where
  "class_token s =
     (let t = take 4 s
      in if upper t = ''R3TR'' \<or> upper t = ''LIMU'' then Some (t, drop 4 s) else None)"

text \<open>
  \<^verbatim>\<open>([A-Z0-9_]{3,5})\s+([A-Z0-9_/\\\-~><=]+)\<close> at the head of \<open>s\<close>. The bounded
  repetition is greedy and backtracks: 5 characters, then 4, then 3. The white space
  after it is taken whole: what follows a shorter run is a space, which is not a name
  character.
\<close>

fun type_and_name :: "nat list \<Rightarrow> string \<Rightarrow> (string \<times> string) option" where
  "type_and_name [] s = None"
| "type_and_name (n # ns) s =
     (let t = take n s;
          r = drop n s;
          ws = takeWhile is_space r;
          nm = takeWhile is_name_char (dropWhile is_space r)
      in if length t = n \<and> list_all is_type_char t \<and> ws \<noteq> [] \<and> nm \<noteq> [] then Some (t, nm)
         else type_and_name ns s)"

text \<open>A match of the whole expression that starts at the head of \<open>s\<close>.\<close>

definition match_here :: "string \<Rightarrow> (string \<times> string \<times> string) option" where
  "match_here s =
     (case class_token s of
        None \<Rightarrow> None
      | Some (c, r) \<Rightarrow>
          if takeWhile is_space r = [] then None
          else (case type_and_name [5, 4, 3] (dropWhile is_space r) of
                  None \<Rightarrow> None
                | Some (t, nm) \<Rightarrow> Some (c, t, nm)))"

text \<open>\<^verbatim>\<open>_ABAP_LINE_RE.search(ln)\<close>: the match at the leftmost position that has one.\<close>

fun re_search :: "string \<Rightarrow> (string \<times> string \<times> string) option" where
  "re_search [] = match_here []"
| "re_search (c # cs) =
     (case match_here (c # cs) of Some m \<Rightarrow> Some m | None \<Rightarrow> re_search cs)"

text \<open>
  \<^verbatim>\<open>re.split(r"[\t\s]+", ln)\<close>: the fields between the runs of white space, the empty
  ones at either end included.
\<close>

fun re_split_from :: "bool \<Rightarrow> string \<Rightarrow> string \<Rightarrow> string list" where
  "re_split_from in_sep acc [] = [rev acc]"
| "re_split_from in_sep acc (c # cs) =
     (if is_space c then
        (if in_sep then re_split_from True acc cs else rev acc # re_split_from True [] cs)
      else re_split_from False (c # acc) cs)"

definition re_split :: "string \<Rightarrow> string list" where
  "re_split sline = re_split_from False [] sline"

definition KNOWN_TYPES :: "string list" where
  "KNOWN_TYPES =
     [''PROG'', ''REPS'', ''REPT'',
      ''CMOD'', ''SMOD'', ''ENHO'', ''ENHS'', ''SPOT'',
      ''CLAS'', ''INTF'', ''FUGR'', ''FUNC'',
      ''TABL'', ''VIEW'', ''DTEL'', ''DOMA'', ''TTYP'', ''DDLS'']"

text \<open>\<^verbatim>\<open>_norm(parts[0]) in names\<close>\<close>

definition norm_in :: "string \<Rightarrow> string list \<Rightarrow> bool" where
  "norm_in p names = (upper (strip p) \<in> set names)"

text \<open>What the loop does with the stripped, non-empty line \<open>sline\<close>.\<close>

definition parse_line :: "string \<Rightarrow> error + obj option" where
  "parse_line sline =
     (case re_search sline of
        Some (c, t, n) \<Rightarrow>
          (case make_obj (JStr c) (JStr t) (JStr n) sline JNull JNull of
             Inl e \<Rightarrow> Inl e | Inr ob \<Rightarrow> Inr (Some ob))
      | None \<Rightarrow>
          let parts = re_split sline
          in if length parts \<ge> 3 \<and> norm_in (parts ! 0) [''R3TR'', ''LIMU''] then
               (case norm (JStr (parts ! 1)) of Inl e \<Rightarrow> Inl e | Inr otype \<Rightarrow>
               (case norm (JStr (parts ! 2)) of Inl e \<Rightarrow> Inl e | Inr oname \<Rightarrow>
               (case make_obj (JStr (parts ! 0)) (JStr otype) (JStr oname) sline JNull JNull of
                  Inl e \<Rightarrow> Inl e | Inr ob \<Rightarrow> Inr (Some ob))))
             else if length parts \<ge> 2 \<and> norm_in (parts ! 0) KNOWN_TYPES then
               (case make_obj (JStr ''R3TR'') (JStr (parts ! 0)) (JStr (parts ! 1)) sline JNull JNull of
                  Inl e \<Rightarrow> Inl e | Inr ob \<Rightarrow> Inr (Some ob))
             else Inr None)"

definition text_body :: "string \<Rightarrow> error + obj option" where
  "text_body line = (let sline = strip line in if sline = [] then Inr None else parse_line sline)"

definition parse_abap_object_text :: "string \<Rightarrow> error + obj list" where
  "parse_abap_object_text text =
     (if text = [] \<or> strip text = [] then Inr []
      else dict_values (collect text_body (splitlines text) []))"

subsubsection \<open>CSV mode\<close>

text \<open>
  A row of \<^verbatim>\<open>csv.DictReader\<close> is a dict from the column names to the fields of the
  line, \<^verbatim>\<open>None\<close> for a field the line does not have.
\<close>

type_synonym csv_row = "(string \<times> json) list"

text \<open>\<^verbatim>\<open>row.get(k, d)\<close> on a dict, and Python's \<^verbatim>\<open>a or b\<close>.\<close>

definition dict_get :: "(string \<times> json) list \<Rightarrow> string \<Rightarrow> json \<Rightarrow> json" where
  "dict_get kvs k d = (case map_of kvs k of None \<Rightarrow> d | Some v \<Rightarrow> v)"

definition py_or :: "json \<Rightarrow> json \<Rightarrow> json" where
  "py_or a b = (if truthy a then a else b)"

definition csv_body :: "(csv_row \<Rightarrow> string) \<Rightarrow> csv_row \<Rightarrow> error + obj option" where
  "csv_body dumps r =
     (let oclass = dict_get r ''obj_class'' (JStr ''R3TR'');
          otype = py_or (dict_get r ''obj_type'' JNull)
                    (py_or (dict_get r ''object_type'' JNull)
                      (py_or (dict_get r ''type'' JNull) (JStr [])));
          oname = py_or (dict_get r ''obj_name'' JNull)
                    (py_or (dict_get r ''object_name'' JNull)
                      (py_or (dict_get r ''name'' JNull) (JStr [])));
          pkg = py_or (dict_get r ''package'' JNull) (py_or (dict_get r ''devclass'' JNull) JNull);
          compo = py_or (dict_get r ''component'' JNull) JNull
      in if \<not> truthy otype \<or> \<not> truthy oname then Inr None
         else (case make_obj oclass otype oname (dumps r) pkg compo of
                 Inl e \<Rightarrow> Inl e | Inr ob \<Rightarrow> Inr (Some ob)))"

text \<open>
  \<open>DictReader\<close> stands for decoding the bytes and reading all their rows, \<open>dumps\<close> for
  \<^verbatim>\<open>json.dumps\<close> on a row.
\<close>

definition load_objects_from_csv ::
  "(string \<Rightarrow> error + csv_row list) \<Rightarrow> (csv_row \<Rightarrow> string) \<Rightarrow> string \<Rightarrow> error + obj list" where
  "load_objects_from_csv DictReader dumps raw_bytes =
     (if raw_bytes = [] then Inr []
      else (case DictReader raw_bytes of
              Inl e \<Rightarrow> Inl e
            | Inr rows \<Rightarrow> dict_values (collect (csv_body dumps) rows [])))"

subsubsection \<open>JSON mode\<close>

text \<open>\<^verbatim>\<open>str(raw)\<close>: a string is itself, \<open>repr\<close> prints any other value.\<close>

definition py_str :: "(json \<Rightarrow> string) \<Rightarrow> json \<Rightarrow> string" where
  "py_str repr v = (case v of JStr s \<Rightarrow> s | _ \<Rightarrow> repr v)"

definition json_body :: "(json \<Rightarrow> string) \<Rightarrow> json \<Rightarrow> error + obj option" where
  "json_body repr o0 =
     (case o0 of
        JObj kvs \<Rightarrow>
          (let oclass = dict_get kvs ''obj_class'' (JStr ''R3TR'');
               otype = py_or (dict_get kvs ''obj_type'' JNull)
                         (py_or (dict_get kvs ''object_type'' JNull) (JStr []));
               oname = py_or (dict_get kvs ''obj_name'' JNull)
                         (py_or (dict_get kvs ''object_name'' JNull) (JStr []));
               pkg = dict_get kvs ''package'' JNull;
               compo = dict_get kvs ''component'' JNull;
               raw0 = dict_get kvs ''raw'' (JStr [])
           in if \<not> truthy otype \<or> \<not> truthy oname then Inr None
              else (case make_obj oclass otype oname (py_str repr raw0) pkg compo of
                      Inl e \<Rightarrow> Inl e | Inr ob \<Rightarrow> Inr (Some ob)))
      | _ \<Rightarrow> Inr None)"

text \<open>
  \<open>loads\<close> stands for decoding the bytes and \<^verbatim>\<open>json.loads\<close>.
  \<^verbatim>\<open>data.get("objects", data if isinstance(data, list) else [])\<close> calls \<^verbatim>\<open>get\<close> on the
  document whatever its type.
\<close>

definition load_objects_from_json ::
  "(string \<Rightarrow> error + json) \<Rightarrow> (json \<Rightarrow> string) \<Rightarrow> string \<Rightarrow> error + obj list" where
  "load_objects_from_json loads repr raw_bytes =
     (if raw_bytes = [] then Inr []
      else (case loads raw_bytes of
              Inl e \<Rightarrow> Inl e
            | Inr data \<Rightarrow>
                (case py_get data ''objects'' (case data of JArr xs \<Rightarrow> data | _ \<Rightarrow> JArr []) of
                   Inl e \<Rightarrow> Inl e
                 | Inr objects \<Rightarrow>
                     (case py_iter objects of
                        Inl e \<Rightarrow> Inl e
                      | Inr items \<Rightarrow> dict_values (collect (json_body repr) items [])))))"

subsection \<open>Sample data\<close>

text \<open>
  A change with one program, a stored change \<^verbatim>\<open>CHG-1\<close> that lists the same program,
  and decoders that know the stored texts of the samples.
\<close>

definition example_obj :: obj where
  "example_obj =
     \<lparr>obj_class = ''R3TR'', obj_type = ''PROG'', obj_name = ''ZA'', subtype = None,
      package = None, component = None, raw = ''R3TR PROG ZA'',
      normalized_key = ''R3TR:PROG:ZA''\<rparr>"

definition example_doc :: json where
  "example_doc =
     JObj [(''object_risks'', JArr [JObj [(''normalized_key'', JStr ''R3TR:PROG:ZA'')]])]"

definition example_loads :: "string \<Rightarrow> error + json" where
  "example_loads s = (if s = ''J'' then Inr example_doc else Inl JSONDecodeError)"

definition example_fromisoformat :: "string \<Rightarrow> error + datetime" where
  "example_fromisoformat s =
     (if s = ''OLD'' then Inr (Aware 63000000000000000)
      else if s = ''T'' then Inr (Aware 63900000000000000)
      else Inl ValueError)"

definition example_row :: row where
  "example_row = \<lparr>change_id = ''CHG-1'', generated_at = Some ''T'', findings_json = ''J''\<rparr>"

definition old_row :: row where
  "old_row = \<lparr>change_id = ''CHG-1'', generated_at = Some ''OLD'', findings_json = ''J''\<rparr>"

definition broken_row :: row where
  "broken_row = \<lparr>change_id = ''CHG-0'', generated_at = Some ''T'', findings_json = ''{''\<rparr>"

text \<open>A change of 201 objects, and the stored findings that list given keys.\<close>

definition many_keys :: "string list" where
  "many_keys = map (\<lambda>n. replicate (Suc n) (CHR ''K'')) [0..<201]"

definition risk_entry :: "string \<Rightarrow> json" where
  "risk_entry k = JObj [(''normalized_key'', JStr k)]"

definition findings_of_keys :: "string list \<Rightarrow> json" where
  "findings_of_keys ks = JObj [(''object_risks'', JArr (map risk_entry ks))]"

definition obj_of_key :: "string \<Rightarrow> obj" where
  "obj_of_key k =
     \<lparr>obj_class = [], obj_type = [], obj_name = [], subtype = None,
      package = None, component = None, raw = [], normalized_key = k\<rparr>"

text \<open>The two lines of the parsing scenario, and the objects they denote.\<close>

definition two_lines :: string where
  "two_lines = ''R3TR PROG ZFI_POSTING_REPORT\<newline>R3TR CMOD ZFI_EXIT_001''"

definition posting_report :: obj where
  "posting_report =
     \<lparr>obj_class = ''R3TR'', obj_type = ''PROG'',
      obj_name = ''ZFI_POSTING_REPORT'', subtype = None, package = None,
      component = None, raw = ''R3TR PROG ZFI_POSTING_REPORT'',
      normalized_key = ''R3TR:PROG:ZFI_POSTING_REPORT''\<rparr>"

definition exit_001 :: obj where
  "exit_001 =
     \<lparr>obj_class = ''R3TR'', obj_type = ''CMOD'',
      obj_name = ''ZFI_EXIT_001'', subtype = None, package = None,
      component = None, raw = ''R3TR CMOD ZFI_EXIT_001'',
      normalized_key = ''R3TR:CMOD:ZFI_EXIT_001''\<rparr>"

text \<open>
  A catalog entry with name patterns only, one with a type filter only, and objects for
  them.
\<close>

definition ns_only_app :: app where
  "ns_only_app =
     \<lparr>cat_app_id = Some ''FI'', cat_display_name = None, cat_criticality = None,
      cat_tags = None, packages = [], namespaces = [''Z*''], object_types = []\<rparr>"

definition abc_obj :: obj where
  "abc_obj =
     \<lparr>obj_class = ''R3TR'', obj_type = ''PROG'', obj_name = ''ABC'', subtype = None,
      package = None, component = None, raw = ''R3TR PROG ABC'',
      normalized_key = ''R3TR:PROG:ABC''\<rparr>"

definition tabl_app :: app where
  "tabl_app =
     \<lparr>cat_app_id = Some ''MD'', cat_display_name = Some ''Master data'',
      cat_criticality = Some 4, cat_tags = None, packages = [], namespaces = [],
      object_types = [''TABL'']\<rparr>"

definition tabl_obj :: obj where
  "tabl_obj =
     \<lparr>obj_class = ''R3TR'', obj_type = ''TABL'', obj_name = ''ZT'', subtype = None,
      package = None, component = None, raw = ''R3TR TABL ZT'',
      normalized_key = ''R3TR:TABL:ZT''\<rparr>"

text \<open>
  Inputs of the parser: a text that names one program twice, the rows of a CSV file, and
  stand-ins for \<^verbatim>\<open>repr\<close>, \<^verbatim>\<open>json.dumps\<close>, the CSV reader and the JSON decoder on
  the sample inputs.
\<close>

definition dup_lines :: string where
  "dup_lines = ''R3TR PROG ZA\<newline>junk\<newline>r3tr prog za''"

definition example_repr :: "json \<Rightarrow> string" where
  "example_repr v = ''None''"

definition example_dumps :: "csv_row \<Rightarrow> string" where
  "example_dumps r = concat (map fst r)"

definition example_csv_rows :: "csv_row list" where
  "example_csv_rows =
     [[(''type'', JStr ''prog''), (''name'', JStr ''za''), (''devclass'', JStr ''zpkg'')],
      [(''type'', JStr ''tabl''), (''name'', JNull), (''devclass'', JNull)]]"

definition example_DictReader :: "string \<Rightarrow> error + csv_row list" where
  "example_DictReader s = Inr example_csv_rows"

definition bare_array_loads :: "string \<Rightarrow> error + json" where
  "bare_array_loads s = (if s = ''[]'' then Inr (JArr []) else Inl JSONDecodeError)"




subsection \<open>Notation\<close>

text \<open>
  The objects a loop stores, in order; the dedup invariant of an output against them; one
  store into the dict seen as a map; and the values a CSV cell can have.
\<close>

abbreviation stored :: "('a \<Rightarrow> error + obj option) \<Rightarrow> 'a list \<Rightarrow> obj list" where
  "stored body xs \<equiv>
     List.map_filter (\<lambda>x. case body x of Inr (Some ob) \<Rightarrow> Some ob | _ \<Rightarrow> None) xs"

abbreviation last_wins :: "obj list \<Rightarrow> obj list \<Rightarrow> bool" where
  "last_wins produced out \<equiv>
     distinct (map normalized_key out) \<and>
     normalized_key ` set out = normalized_key ` set produced \<and>
     (\<forall>ob \<in> set out.
        ob = last (filter (\<lambda>p. normalized_key p = normalized_key ob) produced))"

abbreviation put :: "obj \<Rightarrow> (string \<rightharpoonup> obj) \<Rightarrow> (string \<rightharpoonup> obj)" where
  "put ob m \<equiv> m(normalized_key ob \<mapsto> ob)"

abbreviation textual :: "json \<Rightarrow> bool" where
  "textual v \<equiv> v = JNull \<or> (\<exists>s. v = JStr s)"

section \<open>Properties\<close>

subsection \<open>Overlap query\<close>

lemma sort_overlaps_set: "set (sort_overlaps xs) = set xs"
  by (simp add: sort_overlaps_def)

lemma sort_overlaps_length: "length (sort_overlaps xs) = length xs"
  by (simp add: sort_overlaps_def)

lemma sort_overlaps_sorted:
  "sorted_wrt (\<lambda>a b. shared_object_count b \<le> shared_object_count a) (sort_overlaps xs)"
proof -
  have "sorted (map (\<lambda>x. - int (shared_object_count x)) (sort_overlaps xs))"
    unfolding sort_overlaps_def by (rule sorted_sort_key)
  then show ?thesis by (simp add: sorted_map)
qed

lemma sort_overlaps_stable:
  "filter (\<lambda>x. shared_object_count x = n) (sort_overlaps xs) =
   filter (\<lambda>x. shared_object_count x = n) xs"
proof -
  have "filter (\<lambda>x. - int (shared_object_count x) = - int n) (sort_overlaps xs) =
        filter (\<lambda>x. - int (shared_object_count x) = - int n) xs"
    unfolding sort_overlaps_def by (rule sort_key_stable)
  then show ?thesis by simp
qed

lemma shared_keys_set: "set (shared_keys os others) = set os \<inter> {k. JStr k \<in> set others}"
  by (auto simp: shared_keys_def)

lemma shared_keys_sorted: "sorted (shared_keys os others)"
  by (simp add: shared_keys_def)

lemma shared_keys_distinct: "distinct (shared_keys os others)"
  by (simp add: shared_keys_def)

lemma shared_keys_length:
  "length (shared_keys os others) = card (set os \<inter> {k. JStr k \<in> set others})"
  using distinct_card [OF shared_keys_distinct, of os others]
  by (simp add: shared_keys_set)

lemma shared_keys_sorted_list:
  "shared_keys os others = sorted_list_of_set (set os \<inter> {k. JStr k \<in> set others})"
proof -
  have "set (filter (\<lambda>k. JStr k \<in> set others) os) = set os \<inter> {k. JStr k \<in> set others}"
    by auto
  then show ?thesis
    unfolding shared_keys_def by (metis sorted_list_of_set_sort_remdups)
qed

lemma scan_row_Some:
  assumes "scan_row fi ld c os r = Some ov"
  shows "\<exists>doc others. ld (findings_json r) = Inr doc \<and> other_objs doc = Inr others \<and>
           shared_keys os others \<noteq> [] \<and>
           ov = \<lparr>other_change_id = change_id r,
                 shared_object_count = length (shared_keys os others),
                 shared_objects = take 200 (shared_keys os others)\<rparr>"
  using assms
  by (auto simp: scan_row_def row_body_def Let_def
           split: sum.splits option.splits if_splits bool.splits)

lemma scan_row_too_old:
  assumes "generated_at r = Some g" "g \<noteq> []" "fi g = Inr dt" "dt_before dt c \<noteq> Inr False"
  shows "scan_row fi ld c os r = None"
  using assms
  by (auto simp: scan_row_def row_body_def Let_def
           split: sum.splits option.splits if_splits bool.splits)

lemma find_overlaps_Inr:
  assumes "find_overlaps fi ld now db cid objects wd = Inr res"
  obtains c where "cutoff_of now wd = Inr c"
    and "res = take 25 (sort_overlaps (List.map_filter (scan_row fi ld c (obj_set objects))
                 (filter (\<lambda>r. change_id r \<noteq> cid) db)))"
  using assms by (auto simp: find_overlaps_def Let_def split: sum.splits)

lemma find_overlaps_mem:
  assumes "find_overlaps fi ld now db cid objects wd = Inr res" "ov \<in> set res"
  obtains c r where "cutoff_of now wd = Inr c" "r \<in> set db" "change_id r \<noteq> cid"
    "scan_row fi ld c (obj_set objects) r = Some ov"
proof -
  from assms(1) obtain c where c: "cutoff_of now wd = Inr c"
    and res: "res = take 25 (sort_overlaps (List.map_filter (scan_row fi ld c (obj_set objects))
                 (filter (\<lambda>r. change_id r \<noteq> cid) db)))"
    by (rule find_overlaps_Inr)
  from assms(2) res have "ov \<in> set (sort_overlaps (List.map_filter (scan_row fi ld c (obj_set objects))
                 (filter (\<lambda>r. change_id r \<noteq> cid) db)))"
    by (auto dest: in_set_takeD)
  then have "ov \<in> set (List.map_filter (scan_row fi ld c (obj_set objects))
                 (filter (\<lambda>r. change_id r \<noteq> cid) db))"
    by (simp add: sort_overlaps_set)
  then obtain r where "r \<in> set db" "change_id r \<noteq> cid" "scan_row fi ld c (obj_set objects) r = Some ov"
    by (auto simp: map_filter_def)
  with c that show thesis by blast
qed

lemmas example_defs = example_row_def example_obj_def example_doc_def example_loads_def
  example_fromisoformat_def old_row_def broken_row_def
lemmas find_overlaps_defs = find_overlaps_def obj_set_def cutoff_of_def
     APP_TZ_def day_us_def Let_def map_filter_def scan_row_def row_body_def other_objs_def py_set_def shared_keys_def sort_overlaps_def

text \<open>
  C6. Every result of \<open>find_overlaps\<close> holds only records with at least one shared
  object, is sorted by \<open>shared_object_count\<close> descending and has at most 25 records;
  the \<open>shared_objects\<close> of each record are sorted, without repetition, and at most 200.
\<close>

theorem find_overlaps_shape:
  assumes "find_overlaps fi ld now db cid objects wd = Inr res"
  shows "(\<forall>ov \<in> set res. 1 \<le> shared_object_count ov \<and> shared_objects ov \<noteq> [] \<and>
            sorted (shared_objects ov) \<and> distinct (shared_objects ov) \<and>
            length (shared_objects ov) \<le> 200) \<and>
         sorted_wrt (\<lambda>a b. shared_object_count b \<le> shared_object_count a) res \<and>
         length res \<le> 25"
proof (intro conjI ballI)
  from assms obtain c where
    res: "res = take 25 (sort_overlaps (List.map_filter (scan_row fi ld c (obj_set objects))
                 (filter (\<lambda>r. change_id r \<noteq> cid) db)))"
    by (rule find_overlaps_Inr)
  show "length res \<le> 25" by (simp add: res)
  show "sorted_wrt (\<lambda>a b. shared_object_count b \<le> shared_object_count a) res"
    unfolding res by (rule sorted_wrt_take) (rule sort_overlaps_sorted)
next
  fix ov assume "ov \<in> set res"
  with assms obtain c r where "scan_row fi ld c (obj_set objects) r = Some ov"
    by (rule find_overlaps_mem)
  then obtain others where ne: "shared_keys (obj_set objects) others \<noteq> []"
    and ov: "ov = \<lparr>other_change_id = change_id r,
                 shared_object_count = length (shared_keys (obj_set objects) others),
                 shared_objects = take 200 (shared_keys (obj_set objects) others)\<rparr>"
    using scan_row_Some by blast
  from ne show "1 \<le> shared_object_count ov"
    by (cases "shared_keys (obj_set objects) others") (simp_all add: ov)
  from ne show "shared_objects ov \<noteq> []" by (simp add: ov)
  show "sorted (shared_objects ov)"
    by (simp add: ov sorted_wrt_take shared_keys_sorted)
  show "distinct (shared_objects ov)"
    by (simp add: ov shared_keys_distinct)
  show "length (shared_objects ov) \<le> 200" by (simp add: ov)
qed

text \<open>
  The sample change against the stored \<^verbatim>\<open>CHG-1\<close>: one record, one shared key.
\<close>

theorem find_overlaps_shape_witness:
  "find_overlaps example_fromisoformat example_loads 63900000000000000
     [example_row] ''CHG-2'' [example_obj] 30
   = Inr [\<lparr>other_change_id = ''CHG-1'', shared_object_count = 1,
            shared_objects = [''R3TR:PROG:ZA'']\<rparr>] \<and>
   sorted_wrt (\<lambda>a b. shared_object_count b \<le> shared_object_count a)
     [\<lparr>other_change_id = ''CHG-1'', shared_object_count = 1,
            shared_objects = [''R3TR:PROG:ZA'']\<rparr>] \<and>
   length [\<lparr>other_change_id = ''CHG-1'', shared_object_count = 1,
            shared_objects = [''R3TR:PROG:ZA'']\<rparr>] \<le> 25"
proof -
  have h: "find_overlaps example_fromisoformat example_loads
      63900000000000000 [example_row] ''CHG-2'' [example_obj] 30
    = Inr [\<lparr>other_change_id = ''CHG-1'', shared_object_count = 1,
            shared_objects = [''R3TR:PROG:ZA'']\<rparr>]"
    by (simp add: find_overlaps_defs example_defs)
  from find_overlaps_shape [OF h] h show ?thesis by blast
qed

text \<open>
  C4. A stored change other than the current one whose \<open>generated_at\<close> parses to a
  datetime strictly before the cutoff \<open>now - window_days\<close> is in no record of the
  result, whatever it shares with the current change. The identifiers of the table are
  distinct, \<open>change_id\<close> being its primary key.
\<close>

theorem find_overlaps_window:
  assumes res: "find_overlaps fi ld now db cid objects wd = Inr res"
    and cut: "cutoff_of now wd = Inr c"
    and r: "r \<in> set db"
    and g: "generated_at r = Some g" "g \<noteq> []"
    and dt: "fi g = Inr dt" "dt_before dt c = Inr True"
    and pk: "distinct (map change_id db)"
  shows "change_id r \<notin> other_change_id ` set res"
proof
  assume "change_id r \<in> other_change_id ` set res"
  then obtain ov where ov: "ov \<in> set res" "other_change_id ov = change_id r" by auto
  from res ov(1) obtain c' r' where c': "cutoff_of now wd = Inr c'" and r': "r' \<in> set db"
    and s: "scan_row fi ld c' (obj_set objects) r' = Some ov"
    by (rule find_overlaps_mem)
  from s have "other_change_id ov = change_id r'"
    using scan_row_Some by fastforce
  with ov(2) have "change_id r' = change_id r" by simp
  with pk r r' have "r' = r" by (meson distinct_map inj_onD)
  moreover from cut c' have "c' = c" by simp
  moreover have "scan_row fi ld c (obj_set objects) r = None"
    using g dt by (intro scan_row_too_old) auto
  ultimately show False using s by simp
qed

lemma risk_keys_entries:
  "\<forall>k \<in> set ks. k \<noteq> [] \<Longrightarrow> risk_keys (map risk_entry ks) = Inr (map JStr ks)"
  by (induction ks) (simp_all add: risk_entry_def)

lemma py_set_strings: "py_set (map JStr ks) = Inr (map JStr ks)"
  by (simp add: py_set_def list_all_iff)

lemma other_objs_findings_of_keys:
  assumes "\<forall>k \<in> set ks. k \<noteq> []"
  shows "other_objs (findings_of_keys ks) = Inr (map JStr ks)"
  using assms
  by (simp add: other_objs_def findings_of_keys_def risk_keys_entries py_set_strings)

lemma shared_keys_self:
  assumes "distinct ks"
  shows "shared_keys ks (map JStr ks) = sort ks"
proof -
  have "filter (\<lambda>k. JStr k \<in> set (map JStr ks)) ks = ks"
    by (rule filter_True) auto
  with assms show ?thesis by (simp add: shared_keys_def distinct_remdups_id)
qed

lemma many_keys_distinct: "distinct many_keys"
proof -
  have "inj_on (\<lambda>n. replicate (Suc n) (CHR ''K'')) (set [0..<201])"
    by (rule inj_onI) (metis length_replicate nat.inject)
  then show ?thesis by (simp add: many_keys_def distinct_map)
qed

lemma many_keys_nonempty: "\<forall>k \<in> set many_keys. k \<noteq> []"
  by (auto simp: many_keys_def)

lemma many_keys_length: "length many_keys = 201"
  by (simp add: many_keys_def)

lemma obj_set_of_keys: "\<forall>k \<in> set ks. k \<noteq> [] \<Longrightarrow> obj_set (map obj_of_key ks) = ks"
  by (induction ks) (simp_all add: obj_set_def obj_of_key_def)

lemma find_overlaps_many:
  "find_overlaps fi (\<lambda>s. Inr (findings_of_keys many_keys)) 63900000000000000
     [\<lparr>change_id = ''CHG-1'', generated_at = None, findings_json = ''J''\<rparr>]
     ''CHG-2'' (map obj_of_key many_keys) 30 =
   Inr [\<lparr>other_change_id = ''CHG-1'', shared_object_count = 201,
          shared_objects = take 200 (sort many_keys)\<rparr>]"
proof -
  have c: "cutoff_of 63900000000000000 30 = Inr 63897408000000000"
    by (simp add: cutoff_of_def APP_TZ_def day_us_def)
  have s: "shared_keys many_keys (map JStr many_keys) = sort many_keys"
    by (rule shared_keys_self) (rule many_keys_distinct)
  have ne: "sort many_keys \<noteq> []"
    using many_keys_length by (metis length_sort list.size(3) zero_neq_numeral)
  have "scan_row fi (\<lambda>s. Inr (findings_of_keys many_keys)) 63897408000000000 many_keys
          \<lparr>change_id = ''CHG-1'', generated_at = None, findings_json = ''J''\<rparr> =
        Some \<lparr>other_change_id = ''CHG-1'', shared_object_count = 201,
          shared_objects = take 200 (sort many_keys)\<rparr>"
    using ne
    by (simp add: scan_row_def row_body_def other_objs_findings_of_keys [OF many_keys_nonempty]
          s many_keys_length)
  then show ?thesis
    by (simp add: find_overlaps_def c obj_set_of_keys [OF many_keys_nonempty] map_filter_def
          sort_overlaps_def)
qed

text \<open>
  C10. In every record of the result \<open>shared_object_count\<close> is the size of the whole
  intersection of the keys of the current change with the keys of the stored change, and
  \<open>shared_objects\<close> its first 200 keys in sorted order; so the count is at least the
  length of the list. The count can exceed 200: a change of 201 objects against a stored
  change with the same 201 keys gives a count above 200 with a list of 200.
\<close>

theorem find_overlaps_count:
  "(\<forall>res ov. find_overlaps fi ld now db cid objects wd = Inr res \<and> ov \<in> set res \<longrightarrow>
      (\<exists>r doc others. r \<in> set db \<and> change_id r = other_change_id ov \<and> change_id r \<noteq> cid \<and>
         ld (findings_json r) = Inr doc \<and> other_objs doc = Inr others \<and>
         shared_object_count ov = card (set (obj_set objects) \<inter> {k. JStr k \<in> set others}) \<and>
         shared_objects ov =
           take 200 (sorted_list_of_set (set (obj_set objects) \<inter> {k. JStr k \<in> set others})) \<and>
         length (shared_objects ov) \<le> shared_object_count ov)) \<and>
   (\<exists>ld' db' objects' ov'.
      find_overlaps fi ld' 63900000000000000 db' ''CHG-2'' objects' 30 = Inr [ov'] \<and>
      200 < shared_object_count ov' \<and> length (shared_objects ov') = 200)"
proof (intro conjI allI impI)
  fix res ov
  assume a: "find_overlaps fi ld now db cid objects wd = Inr res \<and> ov \<in> set res"
  then obtain c r where r: "r \<in> set db" "change_id r \<noteq> cid"
    and s: "scan_row fi ld c (obj_set objects) r = Some ov"
    by (meson find_overlaps_mem)
  from scan_row_Some [OF s] obtain doc others where
    d: "ld (findings_json r) = Inr doc" "other_objs doc = Inr others"
    and ov: "ov = \<lparr>other_change_id = change_id r,
                 shared_object_count = length (shared_keys (obj_set objects) others),
                 shared_objects = take 200 (shared_keys (obj_set objects) others)\<rparr>"
    by blast
  have "shared_object_count ov = card (set (obj_set objects) \<inter> {k. JStr k \<in> set others})"
    by (simp add: ov shared_keys_length)
  moreover have "shared_objects ov =
      take 200 (sorted_list_of_set (set (obj_set objects) \<inter> {k. JStr k \<in> set others}))"
    by (simp add: ov shared_keys_sorted_list)
  moreover have "length (shared_objects ov) \<le> shared_object_count ov"
    by (simp add: ov)
  moreover have "change_id r = other_change_id ov" by (simp add: ov)
  ultimately show "\<exists>r doc others. r \<in> set db \<and> change_id r = other_change_id ov \<and>
         change_id r \<noteq> cid \<and>
         ld (findings_json r) = Inr doc \<and> other_objs doc = Inr others \<and>
         shared_object_count ov = card (set (obj_set objects) \<inter> {k. JStr k \<in> set others}) \<and>
         shared_objects ov =
           take 200 (sorted_list_of_set (set (obj_set objects) \<inter> {k. JStr k \<in> set others})) \<and>
         length (shared_objects ov) \<le> shared_object_count ov"
    using r d by blast
next
  have "length (take 200 (sort many_keys)) = 200"
    by (simp add: many_keys_length)
  with find_overlaps_many [of fi]
  show "\<exists>ld' db' objects' ov'.
      find_overlaps fi ld' 63900000000000000 db' ''CHG-2'' objects' 30 = Inr [ov'] \<and>
      200 < shared_object_count ov' \<and> length (shared_objects ov') = 200"
    by (intro exI [of _ "\<lambda>s. Inr (findings_of_keys many_keys)"]
          exI [of _ "[\<lparr>change_id = ''CHG-1'', generated_at = None, findings_json = ''J''\<rparr>]"]
          exI [of _ "map obj_of_key many_keys"]
          exI [of _ "\<lparr>other_change_id = ''CHG-1'', shared_object_count = 201,
          shared_objects = take 200 (sort many_keys)\<rparr>"]) simp
qed

lemma other_objs_not_dict: "\<forall>kvs. doc \<noteq> JObj kvs \<Longrightarrow> other_objs doc = Inl AttributeError"
  by (cases doc) (simp_all add: other_objs_def)

lemma other_objs_no_fields:
  "map_of kvs ''object_risks'' = None \<Longrightarrow> map_of kvs ''objects'' = None \<Longrightarrow>
   other_objs (JObj kvs) = Inr []"
  by (simp add: other_objs_def py_set_def)

lemma shared_keys_Nil: "shared_keys os [] = []"
  by (simp add: shared_keys_def)

lemma scan_row_raises: "row_body fi ld c os r = Inl e \<Longrightarrow> scan_row fi ld c os r = None"
  by (simp add: scan_row_def)

lemma scan_row_malformed:
  assumes "(\<exists>e. ld (findings_json r) = Inl e) \<or>
           (\<exists>doc. ld (findings_json r) = Inr doc \<and>
              (\<forall>kvs. doc = JObj kvs \<longrightarrow>
                 map_of kvs ''object_risks'' = None \<and> map_of kvs ''objects'' = None))"
  shows "scan_row fi ld c os r = None"
  using assms
proof (elim disjE exE conjE)
  fix e assume "ld (findings_json r) = Inl e"
  then show ?thesis
    by (simp add: scan_row_def row_body_def Let_def split: sum.splits bool.splits option.splits)
next
  fix doc
  assume d: "ld (findings_json r) = Inr doc"
    and f: "\<forall>kvs. doc = JObj kvs \<longrightarrow>
              map_of kvs ''object_risks'' = None \<and> map_of kvs ''objects'' = None"
  have "other_objs doc = Inl AttributeError \<or> other_objs doc = Inr []"
  proof (cases "\<exists>kvs. doc = JObj kvs")
    case True
    with f show ?thesis by (auto simp: other_objs_no_fields)
  next
    case False
    then show ?thesis by (simp add: other_objs_not_dict)
  qed
  with d show ?thesis
    by (auto simp: scan_row_def row_body_def Let_def shared_keys_Nil
             split: sum.splits bool.splits option.splits)
qed

lemma find_overlaps_skip:
  assumes "\<And>c. scan_row fi ld c (obj_set objects) r = None"
  shows "find_overlaps fi ld now (db1 @ r # db2) cid objects wd =
         find_overlaps fi ld now (db1 @ db2) cid objects wd"
  using assms by (simp add: find_overlaps_def Let_def map_filter_def split: sum.splits)

lemma find_overlaps_raises:
  "find_overlaps fi ld now db cid objects wd = Inl e \<longleftrightarrow> cutoff_of now wd = Inl e"
  by (simp add: find_overlaps_def Let_def split: sum.splits)

text \<open>
  C7. A row whose \<open>findings_json\<close> does not decode, or decodes to a document that is
  not a dict or has neither \<open>object_risks\<close> nor \<open>objects\<close>, is skipped: the query
  returns what it returns on the table without that row, and it raises only when the
  cutoff cannot be computed, which does not depend on the rows.
\<close>

theorem malformed_row_skipped:
  assumes "(\<exists>e. ld (findings_json r) = Inl e) \<or>
           (\<exists>doc. ld (findings_json r) = Inr doc \<and>
              (\<forall>kvs. doc = JObj kvs \<longrightarrow>
                 map_of kvs ''object_risks'' = None \<and> map_of kvs ''objects'' = None))"
  shows "find_overlaps fi ld now (db1 @ r # db2) cid objects wd =
           find_overlaps fi ld now (db1 @ db2) cid objects wd \<and>
         (\<forall>e. find_overlaps fi ld now (db1 @ r # db2) cid objects wd = Inl e \<longrightarrow>
              cutoff_of now wd = Inl e)"
proof
  show "find_overlaps fi ld now (db1 @ r # db2) cid objects wd =
           find_overlaps fi ld now (db1 @ db2) cid objects wd"
    by (rule find_overlaps_skip) (rule scan_row_malformed [where ld = ld and r = r, OF assms])
  show "\<forall>e. find_overlaps fi ld now (db1 @ r # db2) cid objects wd = Inl e \<longrightarrow>
              cutoff_of now wd = Inl e"
    by (simp add: find_overlaps_raises)
qed

text \<open>
  A row holding the text \<^verbatim>\<open>{\<close> before the sample row: the result is that of the sample row alone.
\<close>

theorem malformed_row_skipped_witness:
  "example_loads (findings_json broken_row) = Inl JSONDecodeError \<and>
   find_overlaps example_fromisoformat example_loads 63900000000000000
     ([] @ broken_row # [example_row]) ''CHG-2'' [example_obj] 30 =
   Inr [\<lparr>other_change_id = ''CHG-1'', shared_object_count = 1,
          shared_objects = [''R3TR:PROG:ZA'']\<rparr>]"
proof -
  have h: "example_loads (findings_json broken_row) = Inl JSONDecodeError"
    by (simp add: example_loads_def broken_row_def)
  have e: "find_overlaps example_fromisoformat example_loads 63900000000000000
     ([] @ [example_row]) ''CHG-2'' [example_obj] 30 =
   Inr [\<lparr>other_change_id = ''CHG-1'', shared_object_count = 1,
          shared_objects = [''R3TR:PROG:ZA'']\<rparr>]"
    by (simp add: find_overlaps_defs example_defs example_loads_def)
  from h have "(\<exists>e. example_loads (findings_json broken_row) = Inl e) \<or>
           (\<exists>doc. example_loads (findings_json broken_row) = Inr doc \<and>
              (\<forall>kvs. doc = JObj kvs \<longrightarrow>
                 map_of kvs ''object_risks'' = None \<and> map_of kvs ''objects'' = None))"
    by blast
  from malformed_row_skipped [where ld = example_loads and r = broken_row
      and fi = example_fromisoformat and now = 63900000000000000
      and ?db1.0 = "[]" and ?db2.0 = "[example_row]" and cid = "''CHG-2''"
      and objects = "[example_obj]" and wd = 30, OF this] h e
  show ?thesis by simp
qed

text \<open>
  The stored change dated about 28 years before \<open>now\<close>, with a window of 30 days.
\<close>

theorem find_overlaps_window_witness:
  "find_overlaps example_fromisoformat example_loads 63900000000000000 [old_row]
      ''CHG-2'' [example_obj] 30 = Inr [] \<and>
   cutoff_of 63900000000000000 30 = Inr 63897408000000000 \<and>
   example_fromisoformat ''OLD'' = Inr (Aware 63000000000000000) \<and>
   dt_before (Aware 63000000000000000) 63897408000000000 = Inr True \<and>
   change_id old_row \<notin> other_change_id ` set []"
proof -
  have res: "find_overlaps example_fromisoformat example_loads 63900000000000000 [old_row]
      ''CHG-2'' [example_obj] 30 = Inr []"
    by (simp add: find_overlaps_defs example_defs example_loads_def old_row_def
          example_fromisoformat_def)
  have cut: "cutoff_of 63900000000000000 30 = Inr 63897408000000000"
    by (simp add: cutoff_of_def APP_TZ_def day_us_def)
  have r: "old_row \<in> set [old_row]" by simp
  have g: "generated_at old_row = Some ''OLD''" "''OLD'' \<noteq> []"
    by (simp_all add: old_row_def)
  have dt: "example_fromisoformat ''OLD'' = Inr (Aware 63000000000000000)"
    "dt_before (Aware 63000000000000000) 63897408000000000 = Inr True"
    by (simp_all add: example_fromisoformat_def)
  have pk: "distinct (map change_id [old_row])" by simp
  from find_overlaps_window [OF res cut r g dt pk] res cut dt show ?thesis by simp
qed

text \<open>
  The record of the sample change counts the one key of the intersection.
\<close>

theorem find_overlaps_count_witness:
  "find_overlaps example_fromisoformat example_loads 63900000000000000 [example_row]
      ''CHG-2'' [example_obj] 30 =
     Inr [\<lparr>other_change_id = ''CHG-1'', shared_object_count = 1,
            shared_objects = [''R3TR:PROG:ZA'']\<rparr>] \<and>
   (\<exists>r doc others. r \<in> set [example_row] \<and> change_id r = ''CHG-1'' \<and>
      example_loads (findings_json r) = Inr doc \<and> other_objs doc = Inr others \<and>
      (1::nat) = card (set (obj_set [example_obj]) \<inter> {k. JStr k \<in> set others}))"
proof -
  have h: "find_overlaps example_fromisoformat example_loads 63900000000000000 [example_row]
      ''CHG-2'' [example_obj] 30 =
     Inr [\<lparr>other_change_id = ''CHG-1'', shared_object_count = 1,
            shared_objects = [''R3TR:PROG:ZA'']\<rparr>]"
    by (simp add: find_overlaps_defs example_defs example_loads_def example_fromisoformat_def)
  from find_overlaps_count [of example_fromisoformat example_loads 63900000000000000
      "[example_row]" "''CHG-2''" "[example_obj]" 30] h
  show ?thesis by fastforce
qed

subsection \<open>Risk scorer\<close>




















lemma base_points_default: "t \<notin> fst ` set BASE_POINTS \<Longrightarrow> base_points t = 3"
proof -
  assume "t \<notin> fst ` set BASE_POINTS"
  then have "map_of BASE_POINTS t = None" by (simp add: map_of_eq_None_iff)
  then show ?thesis by (simp add: base_points_def)
qed

lemma raw_points_base:
  assumes "normalized_key x \<notin> critical_object_set apps" "counts (normalized_key x) = None"
    "length apps \<le> 3"
  shows "raw_points apps counts x = float_of_int (base_points (upper (obj_type x)))"
  using assms by (simp add: raw_points_def object_points_def Let_def)

text \<open>
  C9. The text of the two lines \<^verbatim>\<open>R3TR PROG ZFI_POSTING_REPORT\<close> and
  \<^verbatim>\<open>R3TR CMOD ZFI_EXIT_001\<close> parses to exactly two objects with the keys
  \<^verbatim>\<open>R3TR:PROG:ZFI_POSTING_REPORT\<close> and \<^verbatim>\<open>R3TR:CMOD:ZFI_EXIT_001\<close>. Their base points
  are 6 and 8, which are also their points when no bonus applies (no application, no
  overlap), and a type outside the table has base 3.
\<close>

theorem scenario_two_objects:
  "parse_abap_object_text two_lines = Inr [posting_report, exit_001] \<and>
   map normalized_key [posting_report, exit_001] =
     [''R3TR:PROG:ZFI_POSTING_REPORT'', ''R3TR:CMOD:ZFI_EXIT_001''] \<and>
   base_points (upper (obj_type posting_report)) = 6 \<and>
   base_points (upper (obj_type exit_001)) = 8 \<and>
   map (raw_points [] Map.empty) [posting_report, exit_001] = [6, 8] \<and>
   map (\<lambda>x. py_round (raw_points [] Map.empty x)) [posting_report, exit_001] = [6, 8] \<and>
   (\<forall>t. t \<notin> fst ` set BASE_POINTS \<longrightarrow> base_points t = 3)"
proof (intro conjI allI impI)
  show "parse_abap_object_text two_lines = Inr [posting_report, exit_001]"
    unfolding two_lines_def posting_report_def exit_001_def by code_simp
  show "map normalized_key [posting_report, exit_001] =
     [''R3TR:PROG:ZFI_POSTING_REPORT'', ''R3TR:CMOD:ZFI_EXIT_001'']"
    by (simp add: posting_report_def exit_001_def)
  show p: "base_points (upper (obj_type posting_report)) = 6"
    unfolding posting_report_def by code_simp
  show e: "base_points (upper (obj_type exit_001)) = 8"
    unfolding exit_001_def by code_simp
  have r: "raw_points [] Map.empty x = float_of_int (base_points (upper (obj_type x)))" for x
    by (rule raw_points_base) (simp_all add: critical_object_set_def)
  have six: "float_of_int 6 = 6" by code_simp
  have eight: "float_of_int 8 = 8" by code_simp
  show "map (raw_points [] Map.empty) [posting_report, exit_001] = [6, 8]"
    by (simp add: r p e six eight)
  show "map (\<lambda>x. py_round (raw_points [] Map.empty x)) [posting_report, exit_001] = [6, 8]"
    by (simp add: r p e six eight py_round_def)
next
  fix t assume "t \<notin> fst ` set BASE_POINTS"
  then show "base_points t = 3" by (rule base_points_default)
qed

text \<open>
  The type \<^verbatim>\<open>XXXX\<close> is not in the table.
\<close>

theorem scenario_two_objects_witness:
  "''XXXX'' \<notin> fst ` set BASE_POINTS \<and> base_points ''XXXX'' = 3"
proof -
  have h: "''XXXX'' \<notin> fst ` set BASE_POINTS" by (simp add: BASE_POINTS_def)
  from scenario_two_objects have "\<forall>t. t \<notin> fst ` set BASE_POINTS \<longrightarrow> base_points t = 3"
    by blast
  with h show ?thesis by blast
qed






text \<open>
  A total of 81 over 25 objects, 24 of 3 points and one of 9: the scaled mean is the double
  40.50000000000001, just above the tie, and the score is 41.
\<close>

lemma aggregate_half_above:
  "fmul (fmul (fdiv 81 (float_of_int 25)) scale) (float_of_int 10) =
     5699868278390785 / 140737488355328 \<and>
   aggregate_score 81 25 = 41"
  by code_simp

subsection \<open>Application matcher\<close>

lemma upper_char_idem: "upper_char (upper_char c) = upper_char c"
  by (auto simp: upper_char_def less_eq_char_def)

lemma upper_idem: "upper (upper s) = upper s"
  by (simp add: upper_def upper_char_idem)

lemma match_any_iff:
  "match_any fm pats v \<longleftrightarrow> (\<exists>pat \<in> set pats. fm (upper v) (upper pat))"
  by (auto simp: match_any_def list_ex_iff)

text \<open>
  C1, as the code has it. An object is in the matched subset of an entry exactly when the
  type constraint holds (its type is among the entry's types, or the entry has none) and
  the name pattern set is empty, or the package pattern set is empty, or some name pattern
  matches its name, or some package pattern matches its package. The pattern checks
  constrain only when both pattern sets are non-empty.
\<close>

theorem object_matches_iff:
  "x \<in> set (matched_of fm objects a) \<longleftrightarrow>
     x \<in> set objects \<and>
     (object_types a = [] \<or> upper (obj_type x) \<in> upper ` set (object_types a)) \<and>
     (namespaces a = [] \<or> packages a = [] \<or>
      (\<exists>pat \<in> set (namespaces a). fm (upper (obj_name x)) (upper pat)) \<or>
      (\<exists>pat \<in> set (packages a). fm (upper (or_empty (package x))) (upper pat)))"
  by (auto simp: matched_of_def object_matches_def Let_def match_any_iff upper_idem)

text \<open>
  C1 as stated fails: the entry has the name pattern \<^verbatim>\<open>Z*\<close> and no package pattern, the
  object is named \<^verbatim>\<open>ABC\<close>. Neither check passes, and the object is matched.
\<close>

theorem object_matches_counterexample:
  "namespaces ns_only_app \<noteq> [] \<and>
   \<not> match_any fnmatch (namespaces ns_only_app) (obj_name abc_obj) \<and>
   \<not> match_any fnmatch (packages ns_only_app) (or_empty (package abc_obj)) \<and>
   abc_obj \<in> set (matched_of fnmatch [abc_obj] ns_only_app) \<and>
   map matched_objects (map_objects_to_apps fnmatch [abc_obj] [ns_only_app]) = [1]"
  unfolding ns_only_app_def abc_obj_def by code_simp

lemma app_result_Some:
  assumes "app_result fm objects a = Some r"
  shows "matched_of fm objects a \<noteq> [] \<and>
         matched_objects r = length (matched_of fm objects a) \<and>
         impact_score r =
           min 1 (rat_of_nat (length (matched_of fm objects a)) /
                  rat_of_nat (max 1 (length objects)))"
  using assms by (auto simp: app_result_def Let_def split: if_splits)

lemma app_result_None: "app_result fm objects a = None \<longleftrightarrow> matched_of fm objects a = []"
  by (simp add: app_result_def Let_def)

lemma app_result_bounds:
  assumes "app_result fm objects a = Some r"
  shows "1 \<le> matched_objects r \<and> 0 < impact_score r \<and> impact_score r \<le> 1"
proof -
  from app_result_Some [OF assms] have ne: "matched_of fm objects a \<noteq> []"
    and m: "matched_objects r = length (matched_of fm objects a)"
    and i: "impact_score r =
           min 1 (rat_of_nat (length (matched_of fm objects a)) /
                  rat_of_nat (max 1 (length objects)))"
    by simp_all
  from ne have l: "1 \<le> length (matched_of fm objects a)"
    by (cases "matched_of fm objects a") simp_all
  from ne have n: "(0::rat) < rat_of_nat (length (matched_of fm objects a))" by simp
  have "(0::rat) < rat_of_nat (max 1 (length objects))" by simp
  with n have "0 < rat_of_nat (length (matched_of fm objects a)) / rat_of_nat (max 1 (length objects))"
    by (rule divide_pos_pos)
  then have "0 < impact_score r \<and> impact_score r \<le> 1" by (simp add: i)
  with l m show ?thesis by simp
qed

lemma app_key_neg:
  "((- impact_score a, - criticality a) \<le> (- impact_score b, - criticality b)) =
   (app_key b \<le> app_key a)"
  by (auto simp: app_key_def less_eq_prod_def)

lemma app_key_neg_eq:
  "((- impact_score a, - criticality a) = (- ki, - kc)) = (app_key a = (ki, kc))"
  by (auto simp: app_key_def)

lemma sort_apps_sorted: "sorted_wrt (\<lambda>a b. app_key b \<le> app_key a) (sort_apps xs)"
proof -
  have "sorted (map (\<lambda>x. (- impact_score x, - criticality x)) (sort_apps xs))"
    unfolding sort_apps_def by (rule sorted_sort_key)
  then show ?thesis by (simp only: sorted_map app_key_neg)
qed

lemma sort_apps_stable:
  "filter (\<lambda>r. app_key r = k) (sort_apps xs) = filter (\<lambda>r. app_key r = k) xs"
proof -
  obtain ki kc where k: "k = (ki, kc)" by (cases k)
  have "filter (\<lambda>x. (- impact_score x, - criticality x) = (- ki, - kc)) (sort_apps xs) =
        filter (\<lambda>x. (- impact_score x, - criticality x) = (- ki, - kc)) xs"
    unfolding sort_apps_def by (rule sort_key_stable)
  then show ?thesis by (simp only: app_key_neg_eq k)
qed

text \<open>
  C8. Every result of the matcher has at least one matched object and an impact score
  above 0 and at most 1; the list is sorted descending by the pair (impact score,
  criticality); entries of equal pair keep the order of the catalog (the sort is stable);
  and there is one result for each entry with a match, none for an entry without.
\<close>

theorem map_objects_to_apps_invariants:
  "(\<forall>r \<in> set (map_objects_to_apps fm objects apps).
      1 \<le> matched_objects r \<and> 0 < impact_score r \<and> impact_score r \<le> 1) \<and>
   sorted_wrt (\<lambda>a b. app_key b \<le> app_key a) (map_objects_to_apps fm objects apps) \<and>
   (\<forall>k. filter (\<lambda>r. app_key r = k) (map_objects_to_apps fm objects apps) =
        filter (\<lambda>r. app_key r = k) (List.map_filter (app_result fm objects) apps)) \<and>
   length (map_objects_to_apps fm objects apps) =
     length (filter (\<lambda>a. matched_of fm objects a \<noteq> []) apps)"
proof -
  have bounds: "\<forall>r \<in> set (map_objects_to_apps fm objects apps).
      1 \<le> matched_objects r \<and> 0 < impact_score r \<and> impact_score r \<le> 1"
  proof
    fix r assume "r \<in> set (map_objects_to_apps fm objects apps)"
    then have "r \<in> set (List.map_filter (app_result fm objects) apps)"
      by (simp add: map_objects_to_apps_def sort_apps_def)
    then obtain a where "app_result fm objects a = Some r"
      by (auto simp: map_filter_def)
    then show "1 \<le> matched_objects r \<and> 0 < impact_score r \<and> impact_score r \<le> 1"
      by (rule app_result_bounds)
  qed
  have ordered: "sorted_wrt (\<lambda>a b. app_key b \<le> app_key a) (map_objects_to_apps fm objects apps)"
    unfolding map_objects_to_apps_def by (rule sort_apps_sorted)
  have stable: "\<forall>k. filter (\<lambda>r. app_key r = k) (map_objects_to_apps fm objects apps) =
        filter (\<lambda>r. app_key r = k) (List.map_filter (app_result fm objects) apps)"
    unfolding map_objects_to_apps_def by (simp add: sort_apps_stable)
  have "length (List.map_filter (app_result fm objects) apps) =
        length (filter (\<lambda>a. matched_of fm objects a \<noteq> []) apps)"
    by (induction apps) (simp_all add: map_filter_def app_result_None)
  then have count: "length (map_objects_to_apps fm objects apps) =
     length (filter (\<lambda>a. matched_of fm objects a \<noteq> []) apps)"
    by (simp add: map_objects_to_apps_def sort_apps_def)
  from bounds ordered stable count show ?thesis by blast
qed

lemma ex_apps:
  "map_objects_to_apps fnmatch [tabl_obj, abc_obj] [tabl_app, ns_only_app] =
     [\<lparr>app_id = Some ''FI'', display_name = Some ''FI'', impact_score = 1,
       matched_objects = 2, top_objects = [''R3TR:TABL:ZT'', ''R3TR:PROG:ABC''], tags = [],
       criticality = 3\<rparr>,
      \<lparr>app_id = Some ''MD'', display_name = Some ''Master data'', impact_score = 1 / 2,
       matched_objects = 1, top_objects = [''R3TR:TABL:ZT''], tags = [], criticality = 4\<rparr>]"
  unfolding tabl_obj_def abc_obj_def tabl_app_def ns_only_app_def by code_simp

text \<open>
  Two objects against two entries: the entry matching both comes first.
\<close>

theorem map_objects_to_apps_invariants_witness:
  "map (\<lambda>r. (app_id r, matched_objects r, impact_score r, criticality r))
     (map_objects_to_apps fnmatch [tabl_obj, abc_obj] [tabl_app, ns_only_app]) =
     [(Some ''FI'', 2, 1, 3), (Some ''MD'', 1, 1 / 2, 4)] \<and>
   sorted_wrt (\<lambda>a b. app_key b \<le> app_key a)
     (map_objects_to_apps fnmatch [tabl_obj, abc_obj] [tabl_app, ns_only_app]) \<and>
   length (map_objects_to_apps fnmatch [tabl_obj, abc_obj] [tabl_app, ns_only_app]) = 2"
proof -
  have e: "map (\<lambda>r. (app_id r, matched_objects r, impact_score r, criticality r))
     (map_objects_to_apps fnmatch [tabl_obj, abc_obj] [tabl_app, ns_only_app]) =
     [(Some ''FI'', 2, 1, 3), (Some ''MD'', 1, 1 / 2, 4)]"
    by (simp add: ex_apps)
  have l: "length (map_objects_to_apps fnmatch [tabl_obj, abc_obj] [tabl_app, ns_only_app]) = 2"
    by (simp add: ex_apps)
  from map_objects_to_apps_invariants [of fnmatch "[tabl_obj, abc_obj]" "[tabl_app, ns_only_app]"]
    e l show ?thesis by blast
qed

subsection \<open>Object parser\<close>

lemma map_of_dict_set: "map_of (dict_set found k v) = (map_of found)(k \<mapsto> v)"
  by (induction found) (auto simp: fun_eq_iff)

lemma fst_dict_set: "set (map fst (dict_set found k v)) = insert k (set (map fst found))"
proof (induction found)
  case Nil
  then show ?case by simp
next
  case (Cons kv found)
  obtain k' v' where kv: "kv = (k', v')" by (cases kv)
  show ?case
  proof (cases "k' = k")
    case True
    then show ?thesis by (simp add: kv)
  next
    case False
    have "set (map fst (dict_set (kv # found) k v)) =
          insert k' (set (map fst (dict_set found k v)))"
      using False by (simp add: kv)
    also have "\<dots> = insert k' (insert k (set (map fst found)))"
      by (simp only: Cons.IH)
    finally show ?thesis by (simp add: kv insert_commute)
  qed
qed

lemma distinct_dict_set:
  "distinct (map fst found) \<Longrightarrow> distinct (map fst (dict_set found k v))"
proof (induction found)
  case Nil
  then show ?case by simp
next
  case (Cons kv found)
  obtain k' v' where kv: "kv = (k', v')" by (cases kv)
  from Cons have d: "distinct (map fst (dict_set found k v))" and n: "k' \<notin> set (map fst found)"
    by (simp_all add: kv)
  show ?case
  proof (cases "k' = k")
    case True
    with Cons.prems show ?thesis by (simp add: kv)
  next
    case False
    with n have "k' \<notin> set (map fst (dict_set found k v))"
      by (simp only: fst_dict_set) simp
    with d False show ?thesis by (simp add: kv)
  qed
qed

lemma collect_Inr:
  assumes "collect body xs found0 = Inr found"
  shows "map_of found = fold put (stored body xs) (map_of found0) \<and>
         (distinct (map fst found0) \<longrightarrow> distinct (map fst found))"
  using assms
proof (induction xs arbitrary: found0)
  case Nil
  then show ?case by (simp add: map_filter_def)
next
  case (Cons x xs)
  show ?case
  proof (cases "body x")
    case (Inl e)
    with Cons.prems show ?thesis by simp
  next
    case (Inr r)
    show ?thesis
    proof (cases r)
      case None
      with Inr Cons.prems have "collect body xs found0 = Inr found" by simp
      from Cons.IH [OF this] Inr None show ?thesis by (simp add: map_filter_def)
    next
      case (Some ob)
      with Inr Cons.prems
      have "collect body xs (dict_set found0 (normalized_key ob) ob) = Inr found" by simp
      from Cons.IH [OF this] Inr Some show ?thesis
        by (simp add: map_filter_def map_of_dict_set distinct_dict_set)
    qed
  qed
qed

lemma fold_put:
  "fold put ps m k =
     (if filter (\<lambda>p. normalized_key p = k) ps = [] then m k
      else Some (last (filter (\<lambda>p. normalized_key p = k) ps)))"
  by (induction ps arbitrary: m) auto

lemma last_filter_key:
  "filter (\<lambda>p. normalized_key p = k) ps \<noteq> [] \<Longrightarrow>
   normalized_key (last (filter (\<lambda>p. normalized_key p = k) ps)) = k"
proof -
  assume ne: "filter (\<lambda>p. normalized_key p = k) ps \<noteq> []"
  then have "last (filter (\<lambda>p. normalized_key p = k) ps) \<in> set (filter (\<lambda>p. normalized_key p = k) ps)"
    by (rule last_in_set)
  then show ?thesis by simp
qed

lemma collect_last_wins:
  assumes "dict_values (collect body xs []) = Inr out"
  shows "last_wins (stored body xs) out"
proof -
  let ?P = "stored body xs"
  from assms obtain found where c: "collect body xs [] = Inr found" and out: "out = map snd found"
    by (auto simp: dict_values_def split: sum.splits)
  from collect_Inr [OF c] have m: "map_of found = fold put ?P Map.empty"
    and d: "distinct (map fst found)" by simp_all
  have look: "map_of found k =
     (if filter (\<lambda>p. normalized_key p = k) ?P = [] then None
      else Some (last (filter (\<lambda>p. normalized_key p = k) ?P)))" for k
    by (simp add: m fold_put)
  have mem: "(k, v) \<in> set found \<longleftrightarrow>
     filter (\<lambda>p. normalized_key p = k) ?P \<noteq> [] \<and>
     v = last (filter (\<lambda>p. normalized_key p = k) ?P)" for k v
  proof -
    from d have "(k, v) \<in> set found \<longleftrightarrow> map_of found k = Some v"
      by (simp add: map_of_eq_Some_iff)
    then show ?thesis by (auto simp: look)
  qed
  have key: "normalized_key v = k" if "(k, v) \<in> set found" for k v
    using that last_filter_key [of k ?P] by (simp add: mem)
  have same: "map normalized_key out = map fst found"
    unfolding out using key by (induction found) auto
  have 1: "distinct (map normalized_key out)" by (simp add: same d)
  have 2: "normalized_key ` set out = normalized_key ` set ?P"
  proof -
    have "normalized_key ` set out = fst ` set found"
    proof -
      have "set (map normalized_key out) = set (map fst found)" by (simp only: same)
      then show ?thesis by simp
    qed
    also have "\<dots> = {k. filter (\<lambda>p. normalized_key p = k) ?P \<noteq> []}"
    proof (rule set_eqI)
      fix k
      have "k \<in> fst ` set found \<longleftrightarrow> (\<exists>v. (k, v) \<in> set found)" by force
      then show "k \<in> fst ` set found \<longleftrightarrow>
          k \<in> {k. filter (\<lambda>p. normalized_key p = k) ?P \<noteq> []}"
        by (simp add: mem)
    qed
    also have "\<dots> = normalized_key ` set ?P"
      by (auto simp: filter_empty_conv image_iff)
    finally show ?thesis .
  qed
  have 3: "\<forall>ob \<in> set out. ob = last (filter (\<lambda>p. normalized_key p = normalized_key ob) ?P)"
  proof
    fix ob assume "ob \<in> set out"
    then obtain k where kv: "(k, ob) \<in> set found" by (auto simp: out)
    with key have "normalized_key ob = k" by simp
    with kv mem show "ob = last (filter (\<lambda>p. normalized_key p = normalized_key ob) ?P)"
      by simp
  qed
  from 1 2 3 show ?thesis by blast
qed

lemma strip_Nil_iff: "strip s = [] \<longleftrightarrow> (\<forall>c \<in> set s. is_space c)"
proof
  assume "strip s = []"
  then have a: "dropWhile is_space (rev (dropWhile is_space s)) = []"
    by (simp add: strip_def)
  show "\<forall>c \<in> set s. is_space c"
  proof (cases "dropWhile is_space s")
    case Nil
    then show ?thesis by (simp add: dropWhile_eq_Nil_conv)
  next
    case (Cons c cs)
    then have "\<not> is_space c" using hd_dropWhile [of is_space s] by simp
    moreover from a Cons have "is_space c" by (simp add: dropWhile_eq_Nil_conv)
    ultimately show ?thesis by simp
  qed
next
  assume "\<forall>c \<in> set s. is_space c"
  then have d: "dropWhile is_space s = []" by (simp add: dropWhile_eq_Nil_conv)
  show "strip s = []" by (simp only: strip_def d) simp
qed

lemma splitlines_from_chars:
  "l \<in> set (splitlines_from acc s) \<Longrightarrow> set l \<subseteq> set acc \<union> set s"
  by (induction acc s rule: splitlines_from.induct) (auto split: if_splits)

lemma collect_skip_all:
  "\<forall>x \<in> set xs. body x = Inr None \<Longrightarrow> collect body xs found = Inr found"
  by (induction xs) simp_all

lemma collect_total:
  "\<forall>x \<in> set xs. \<exists>r. body x = Inr r \<Longrightarrow> \<exists>found. collect body xs found0 = Inr found"
proof (induction xs arbitrary: found0)
  case Nil
  then show ?case by simp
next
  case (Cons x xs)
  then obtain r where r: "body x = Inr r" by auto
  from Cons have "\<exists>found. collect body xs f = Inr found" for f by simp
  with r show ?case by (cases r) simp_all
qed

lemma dict_values_total:
  "\<forall>x \<in> set xs. \<exists>r. body x = Inr r \<Longrightarrow> \<exists>out. dict_values (collect body xs []) = Inr out"
  using collect_total [of xs body "[]"] by (auto simp: dict_values_def)

lemma norm_textual: "textual v \<Longrightarrow> \<exists>s. norm v = Inr s"
  by (auto simp: norm_def)

lemma norm_opt_textual: "textual v \<Longrightarrow> \<exists>s. norm_opt v = Inr s"
  by (auto simp: norm_opt_def norm_def)

lemma make_obj_textual:
  assumes "textual c" "textual t" "textual n" "textual p" "textual k"
  shows "\<exists>ob. make_obj c t n line p k = Inr ob"
proof -
  from assms(1) obtain c' where "norm c = Inr c'" using norm_textual by blast
  moreover from assms(2) obtain t' where "norm t = Inr t'" using norm_textual by blast
  moreover from assms(3) obtain n' where "norm n = Inr n'" using norm_textual by blast
  moreover from assms(4) obtain p' where "norm_opt p = Inr p'" using norm_opt_textual by blast
  moreover from assms(5) obtain k' where "norm_opt k = Inr k'" using norm_opt_textual by blast
  ultimately show ?thesis by (simp add: make_obj_def)
qed

lemma parse_line_total: "\<exists>r. parse_line l = Inr r"
proof -
  have m: "\<exists>ob. make_obj (JStr a) (JStr b) (JStr c) l JNull JNull = Inr ob" for a b c
    by (rule make_obj_textual) simp_all
  have n: "\<exists>s. norm (JStr a) = Inr s" for a
    by (rule norm_textual) simp
  show ?thesis
  proof (cases "re_search l")
    case (Some m3)
    obtain c t n where "m3 = (c, t, n)" by (cases m3)
    with Some m [of c t n] show ?thesis by (auto simp: parse_line_def)
  next
    case None
    let ?parts = "re_split l"
    obtain t' where t': "norm (JStr (?parts ! 1)) = Inr t'" using n by blast
    obtain n' where n': "norm (JStr (?parts ! 2)) = Inr n'" using n by blast
    from m [of "?parts ! 0" t' n'] m [of "''R3TR''" "?parts ! 0" "?parts ! 1"] None t' n'
    show ?thesis by (auto simp: parse_line_def Let_def)
  qed
qed

lemma text_body_total: "\<exists>r. text_body l = Inr r"
  using parse_line_total by (simp add: text_body_def Let_def)

lemma parse_text_collect:
  "parse_abap_object_text text = dict_values (collect text_body (splitlines text) [])"
proof (cases "text = [] \<or> strip text = []")
  case False
  then show ?thesis by (simp add: parse_abap_object_text_def)
next
  case True
  then have sp: "\<forall>c \<in> set text. is_space c" by (auto simp: strip_Nil_iff)
  have "\<forall>l \<in> set (splitlines text). text_body l = Inr None"
  proof
    fix l assume "l \<in> set (splitlines text)"
    then have "set l \<subseteq> set text"
      using splitlines_from_chars [of l "[]" "text"] by (simp add: splitlines_def)
    with sp have "strip l = []" by (auto simp: strip_Nil_iff)
    then show "text_body l = Inr None" by (simp add: text_body_def)
  qed
  then have "collect text_body (splitlines text) [] = Inr []" by (rule collect_skip_all)
  with True show ?thesis by (simp add: parse_abap_object_text_def dict_values_def)
qed

lemma dict_get_cases: "dict_get kvs k d = d \<or> dict_get kvs k d \<in> snd ` set kvs"
proof (cases "map_of kvs k")
  case None
  then show ?thesis by (simp add: dict_get_def)
next
  case (Some v)
  then have "(k, v) \<in> set kvs" by (rule map_of_SomeD)
  then have "v \<in> snd ` set kvs" by force
  with Some show ?thesis by (simp add: dict_get_def)
qed

lemma dict_get_textual:
  "\<forall>v \<in> snd ` set kvs. textual v \<Longrightarrow> textual d \<Longrightarrow> textual (dict_get kvs k d)"
  using dict_get_cases [of kvs k d] by auto

lemma py_or_textual: "textual a \<Longrightarrow> textual b \<Longrightarrow> textual (py_or a b)"
  by (auto simp: py_or_def)

lemma csv_body_total:
  assumes "\<forall>v \<in> snd ` set r. textual v"
  shows "\<exists>res. csv_body dumps r = Inr res"
proof -
  have g: "textual (dict_get r k d)" if "textual d" for k d
    using assms that by (rule dict_get_textual)
  have m: "\<exists>ob. make_obj (dict_get r ''obj_class'' (JStr ''R3TR''))
      (py_or (dict_get r ''obj_type'' JNull)
         (py_or (dict_get r ''object_type'' JNull) (py_or (dict_get r ''type'' JNull) (JStr []))))
      (py_or (dict_get r ''obj_name'' JNull)
         (py_or (dict_get r ''object_name'' JNull) (py_or (dict_get r ''name'' JNull) (JStr []))))
      (dumps r)
      (py_or (dict_get r ''package'' JNull) (py_or (dict_get r ''devclass'' JNull) JNull))
      (py_or (dict_get r ''component'' JNull) JNull) = Inr ob"
    by (intro make_obj_textual py_or_textual g) simp_all
  then show ?thesis by (auto simp: csv_body_def Let_def)
qed

lemma json_body_total:
  assumes "\<forall>kvs. o0 = JObj kvs \<longrightarrow> (\<forall>v \<in> snd ` set kvs. textual v)"
  shows "\<exists>res. json_body repr o0 = Inr res"
proof (cases "\<exists>kvs. o0 = JObj kvs")
  case False
  then show ?thesis by (cases o0) (simp_all add: json_body_def)
next
  case True
  then obtain kvs where o0: "o0 = JObj kvs" by blast
  with assms have t: "\<forall>v \<in> snd ` set kvs. textual v" by simp
  have g: "textual (dict_get kvs k d)" if "textual d" for k d
    using t that by (rule dict_get_textual)
  have m: "\<exists>ob. make_obj (dict_get kvs ''obj_class'' (JStr ''R3TR''))
      (py_or (dict_get kvs ''obj_type'' JNull) (py_or (dict_get kvs ''object_type'' JNull) (JStr [])))
      (py_or (dict_get kvs ''obj_name'' JNull) (py_or (dict_get kvs ''object_name'' JNull) (JStr [])))
      (py_str repr (dict_get kvs ''raw'' (JStr [])))
      (dict_get kvs ''package'' JNull)
      (dict_get kvs ''component'' JNull) = Inr ob"
    by (intro make_obj_textual py_or_textual g) simp_all
  then show ?thesis by (auto simp: json_body_def Let_def o0)
qed

text \<open>
  C5. In each mode, the output of a run that returns has pairwise distinct keys, its keys
  are those of the objects the loop stored, and each object of the output is the last one
  stored under its key. The records are the lines of the text, the rows of the reader, the
  items of the \<^verbatim>\<open>objects\<close> entry of the document.
\<close>

theorem parsers_last_wins:
  "(\<forall>out. parse_abap_object_text text = Inr out \<longrightarrow>
      last_wins (stored text_body (splitlines text)) out) \<and>
   (\<forall>out. raw_bytes \<noteq> [] \<and> load_objects_from_csv DictReader dumps raw_bytes = Inr out \<longrightarrow>
      (\<exists>rows. DictReader raw_bytes = Inr rows \<and> last_wins (stored (csv_body dumps) rows) out)) \<and>
   (\<forall>out. raw_bytes \<noteq> [] \<and> load_objects_from_json loads repr raw_bytes = Inr out \<longrightarrow>
      (\<exists>data objects items. loads raw_bytes = Inr data \<and>
         py_get data ''objects'' (JArr []) = Inr objects \<and> py_iter objects = Inr items \<and>
         last_wins (stored (json_body repr) items) out))"
proof -
  have t: "\<forall>out. parse_abap_object_text text = Inr out \<longrightarrow>
      last_wins (stored text_body (splitlines text)) out"
  proof (intro allI impI)
    fix out assume "parse_abap_object_text text = Inr out"
    then have "dict_values (collect text_body (splitlines text) []) = Inr out"
      by (simp add: parse_text_collect)
    then show "last_wins (stored text_body (splitlines text)) out"
      by (rule collect_last_wins)
  qed
  have c: "\<forall>out. raw_bytes \<noteq> [] \<and> load_objects_from_csv DictReader dumps raw_bytes = Inr out \<longrightarrow>
      (\<exists>rows. DictReader raw_bytes = Inr rows \<and> last_wins (stored (csv_body dumps) rows) out)"
  proof (intro allI impI)
    fix out
    assume a: "raw_bytes \<noteq> [] \<and> load_objects_from_csv DictReader dumps raw_bytes = Inr out"
    then obtain rows where r: "DictReader raw_bytes = Inr rows"
      and c: "dict_values (collect (csv_body dumps) rows []) = Inr out"
      by (auto simp: load_objects_from_csv_def split: sum.splits)
    from c have "last_wins (stored (csv_body dumps) rows) out" by (rule collect_last_wins)
    with r show "\<exists>rows. DictReader raw_bytes = Inr rows \<and>
        last_wins (stored (csv_body dumps) rows) out" by blast
  qed
  have j: "\<forall>out. raw_bytes \<noteq> [] \<and> load_objects_from_json loads repr raw_bytes = Inr out \<longrightarrow>
      (\<exists>data objects items. loads raw_bytes = Inr data \<and>
         py_get data ''objects'' (JArr []) = Inr objects \<and> py_iter objects = Inr items \<and>
         last_wins (stored (json_body repr) items) out)"
  proof (intro allI impI)
    fix out
    assume a: "raw_bytes \<noteq> [] \<and> load_objects_from_json loads repr raw_bytes = Inr out"
    then obtain data objects items where d: "loads raw_bytes = Inr data"
      and g: "py_get data ''objects'' (case data of JArr xs \<Rightarrow> data | _ \<Rightarrow> JArr []) = Inr objects"
      and i: "py_iter objects = Inr items"
      and c: "dict_values (collect (json_body repr) items []) = Inr out"
      by (auto simp: load_objects_from_json_def split: sum.splits)
    from g have g': "py_get data ''objects'' (JArr []) = Inr objects" by (cases data) simp_all
    from c have "last_wins (stored (json_body repr) items) out" by (rule collect_last_wins)
    with d g' i show "\<exists>data objects items. loads raw_bytes = Inr data \<and>
           py_get data ''objects'' (JArr []) = Inr objects \<and> py_iter objects = Inr items \<and>
           last_wins (stored (json_body repr) items) out" by blast
  qed
  show ?thesis by (rule conjI [OF t conjI [OF c j]])
qed

lemma parse_dup_lines:
  "parse_abap_object_text dup_lines =
     Inr [\<lparr>obj_class = ''R3TR'', obj_type = ''PROG'', obj_name = ''ZA'', subtype = None,
           package = None, component = None, raw = ''r3tr prog za'',
           normalized_key = ''R3TR:PROG:ZA''\<rparr>]"
  unfolding dup_lines_def by code_simp

text \<open>
  The program named on the first and on the third line: the third line is kept.
\<close>

theorem parsers_last_wins_witness:
  "parse_abap_object_text dup_lines =
     Inr [\<lparr>obj_class = ''R3TR'', obj_type = ''PROG'', obj_name = ''ZA'', subtype = None,
           package = None, component = None, raw = ''r3tr prog za'',
           normalized_key = ''R3TR:PROG:ZA''\<rparr>] \<and>
   map raw (stored text_body (splitlines dup_lines)) = [''R3TR PROG ZA'', ''r3tr prog za''] \<and>
   normalized_key ` set (stored text_body (splitlines dup_lines)) = {''R3TR:PROG:ZA''}"
proof -
  have s: "map raw (stored text_body (splitlines dup_lines)) = [''R3TR PROG ZA'', ''r3tr prog za'']"
    unfolding dup_lines_def by code_simp
  from parsers_last_wins [of dup_lines]
  have "\<forall>out. parse_abap_object_text dup_lines = Inr out \<longrightarrow>
      last_wins (stored text_body (splitlines dup_lines)) out"
    by (rule conjunct1)
  then have "last_wins (stored text_body (splitlines dup_lines))
      [\<lparr>obj_class = ''R3TR'', obj_type = ''PROG'', obj_name = ''ZA'',
           subtype = None, package = None, component = None, raw = ''r3tr prog za'',
           normalized_key = ''R3TR:PROG:ZA''\<rparr>]"
    using parse_dup_lines by blast
  then have "normalized_key ` set (stored text_body (splitlines dup_lines)) = {''R3TR:PROG:ZA''}"
    by simp
  with s parse_dup_lines show ?thesis by blast
qed

text \<open>
  C2 as stated fails: on the bytes \<^verbatim>\<open>{\<close>, which do not decode, the JSON mode raises the
  error of the decoder.
\<close>

theorem parser_modes_counterexample:
  "example_loads ''{'' = Inl JSONDecodeError \<and>
   load_objects_from_json example_loads example_repr ''{'' = Inl JSONDecodeError"
  by (simp add: load_objects_from_json_def example_loads_def)

text \<open>
  C2, as the code has it. The text mode returns a sequence for every text, the empty one
  for an empty or blank text and when no line is recognised. The CSV and the JSON mode
  return the empty sequence on empty bytes. The CSV mode returns a sequence when the
  reader yields its rows (cells are strings or \<^verbatim>\<open>None\<close>). The JSON mode returns a sequence
  when the bytes decode to a dict whose \<^verbatim>\<open>objects\<close> is a list (or absent) and the fields
  of its dict items are strings or \<^verbatim>\<open>null\<close>; when the bytes do not decode it raises the
  error of the decoder.
\<close>

theorem parser_modes_results:
  "(\<exists>out. parse_abap_object_text text = Inr out) \<and>
   (text = [] \<or> strip text = [] \<or> (\<forall>l \<in> set (splitlines text). text_body l = Inr None)
      \<longrightarrow> parse_abap_object_text text = Inr []) \<and>
   load_objects_from_csv DictReader dumps [] = Inr [] \<and>
   load_objects_from_json loads repr [] = Inr [] \<and>
   (\<forall>rows. DictReader raw_bytes = Inr rows \<and>
        (\<forall>r \<in> set rows. \<forall>v \<in> snd ` set r. textual v) \<longrightarrow>
      (\<exists>out. load_objects_from_csv DictReader dumps raw_bytes = Inr out)) \<and>
   (\<forall>kvs items. loads raw_bytes = Inr (JObj kvs) \<and> dict_get kvs ''objects'' (JArr []) = JArr items \<and>
        (\<forall>it \<in> set items. \<forall>kvs'. it = JObj kvs' \<longrightarrow> (\<forall>v \<in> snd ` set kvs'. textual v)) \<longrightarrow>
      (\<exists>out. load_objects_from_json loads repr raw_bytes = Inr out)) \<and>
   (\<forall>e. raw_bytes \<noteq> [] \<and> loads raw_bytes = Inl e \<longrightarrow>
      load_objects_from_json loads repr raw_bytes = Inl e)"
proof -
  have t: "\<exists>out. parse_abap_object_text text = Inr out"
    unfolding parse_text_collect by (rule dict_values_total) (simp add: text_body_total)
  have b: "text = [] \<or> strip text = [] \<or> (\<forall>l \<in> set (splitlines text). text_body l = Inr None)
      \<longrightarrow> parse_abap_object_text text = Inr []"
  proof
    assume "text = [] \<or> strip text = [] \<or> (\<forall>l \<in> set (splitlines text). text_body l = Inr None)"
    then consider "text = [] \<or> strip text = []"
      | "\<forall>l \<in> set (splitlines text). text_body l = Inr None" by blast
    then show "parse_abap_object_text text = Inr []"
    proof cases
      case 1
      then show ?thesis by (simp add: parse_abap_object_text_def)
    next
      case 2
      then have "collect text_body (splitlines text) [] = Inr []" by (rule collect_skip_all)
      then show ?thesis by (simp add: parse_text_collect dict_values_def)
    qed
  qed
  have c: "\<forall>rows. DictReader raw_bytes = Inr rows \<and>
        (\<forall>r \<in> set rows. \<forall>v \<in> snd ` set r. textual v) \<longrightarrow>
      (\<exists>out. load_objects_from_csv DictReader dumps raw_bytes = Inr out)"
  proof (intro allI impI)
    fix rows
    assume a: "DictReader raw_bytes = Inr rows \<and> (\<forall>r \<in> set rows. \<forall>v \<in> snd ` set r. textual v)"
    have "\<forall>r \<in> set rows. \<exists>res. csv_body dumps r = Inr res"
    proof
      fix r assume "r \<in> set rows"
      with a have "\<forall>v \<in> snd ` set r. textual v" by simp
      then show "\<exists>res. csv_body dumps r = Inr res" by (rule csv_body_total)
    qed
    then have "\<exists>out. dict_values (collect (csv_body dumps) rows []) = Inr out"
      by (rule dict_values_total)
    with a show "\<exists>out. load_objects_from_csv DictReader dumps raw_bytes = Inr out"
      by (simp add: load_objects_from_csv_def)
  qed
  have j: "\<forall>kvs items. loads raw_bytes = Inr (JObj kvs) \<and>
        dict_get kvs ''objects'' (JArr []) = JArr items \<and>
        (\<forall>it \<in> set items. \<forall>kvs'. it = JObj kvs' \<longrightarrow> (\<forall>v \<in> snd ` set kvs'. textual v)) \<longrightarrow>
      (\<exists>out. load_objects_from_json loads repr raw_bytes = Inr out)"
  proof (intro allI impI)
    fix kvs items
    assume a: "loads raw_bytes = Inr (JObj kvs) \<and>
        dict_get kvs ''objects'' (JArr []) = JArr items \<and>
        (\<forall>it \<in> set items. \<forall>kvs'. it = JObj kvs' \<longrightarrow> (\<forall>v \<in> snd ` set kvs'. textual v))"
    have "\<forall>it \<in> set items. \<exists>res. json_body repr it = Inr res"
    proof
      fix it assume "it \<in> set items"
      with a have "\<forall>kvs'. it = JObj kvs' \<longrightarrow> (\<forall>v \<in> snd ` set kvs'. textual v)" by simp
      then show "\<exists>res. json_body repr it = Inr res" by (rule json_body_total)
    qed
    then have "\<exists>out. dict_values (collect (json_body repr) items []) = Inr out"
      by (rule dict_values_total)
    moreover from a have "py_get (JObj kvs) ''objects'' (JArr []) = Inr (JArr items)"
      by (simp add: dict_get_def)
    ultimately show "\<exists>out. load_objects_from_json loads repr raw_bytes = Inr out"
      using a by (simp add: load_objects_from_json_def)
  qed
  have e: "\<forall>e. raw_bytes \<noteq> [] \<and> loads raw_bytes = Inl e \<longrightarrow>
      load_objects_from_json loads repr raw_bytes = Inl e"
    by (simp add: load_objects_from_json_def)
  have z: "load_objects_from_csv DictReader dumps [] = Inr []"
    "load_objects_from_json loads repr [] = Inr []"
    by (simp_all add: load_objects_from_csv_def load_objects_from_json_def)
  show ?thesis by (intro conjI t b z c j e)
qed

text \<open>
  A document that is a bare array: \<^verbatim>\<open>data.get\<close> raises, a list has no such method.
\<close>

lemma bare_array_raises:
  "load_objects_from_json bare_array_loads repr ''[]'' = Inl AttributeError"
  by (simp add: load_objects_from_json_def bare_array_loads_def)

lemma csv_example:
  "load_objects_from_csv example_DictReader example_dumps ''x'' =
     Inr [\<lparr>obj_class = ''R3TR'', obj_type = ''PROG'', obj_name = ''ZA'', subtype = None,
           package = Some ''ZPKG'', component = None, raw = ''typenamedevclass'',
           normalized_key = ''R3TR:PROG:ZA''\<rparr>]"
  unfolding example_DictReader_def example_csv_rows_def example_dumps_def by code_simp

text \<open>
  A blank text, the sample rows, the sample document, and bytes that do not decode.
\<close>

theorem parser_modes_results_witness:
  "parse_abap_object_text ''  '' = Inr [] \<and>
   (\<exists>out. load_objects_from_csv example_DictReader example_dumps ''x'' = Inr out) \<and>
   (\<exists>out. load_objects_from_json example_loads example_repr ''J'' = Inr out) \<and>
   load_objects_from_json example_loads example_repr ''not json'' = Inl JSONDecodeError"
proof -
  have blank: "strip ''  '' = []" by code_simp
  have rows: "example_DictReader ''x'' = Inr example_csv_rows"
    by (simp add: example_DictReader_def)
  have cells: "\<forall>r \<in> set example_csv_rows. \<forall>v \<in> snd ` set r. textual v"
    by (simp add: example_csv_rows_def)
  have doc: "example_loads ''J'' = Inr (JObj [(''object_risks'',
      JArr [JObj [(''normalized_key'', JStr ''R3TR:PROG:ZA'')]])])"
    by (simp add: example_loads_def example_doc_def)
  have none: "dict_get [(''object_risks'',
      JArr [JObj [(''normalized_key'', JStr ''R3TR:PROG:ZA'')]])] ''objects'' (JArr []) = JArr []"
    by (simp add: dict_get_def)
  have bad: "example_loads ''not json'' = Inl JSONDecodeError"
    by (simp add: example_loads_def)
  note a = parser_modes_results [of "''  ''" example_DictReader example_dumps example_loads
      example_repr "''x''"]
  note b = parser_modes_results [of "''  ''" example_DictReader example_dumps example_loads
      example_repr "''J''"]
  note c = parser_modes_results [of "''  ''" example_DictReader example_dumps example_loads
      example_repr "''not json''"]
  from a blank have 1: "parse_abap_object_text ''  '' = Inr []" by blast
  from a rows cells
  have 2: "\<exists>out. load_objects_from_csv example_DictReader example_dumps ''x'' = Inr out"
    by blast
  from b doc none
  have 3: "\<exists>out. load_objects_from_json example_loads example_repr ''J'' = Inr out"
    by (elim conjE allE [of _ "[(''object_risks'',
      JArr [JObj [(''normalized_key'', JStr ''R3TR:PROG:ZA'')]])]"] allE [of _ "[]"]) simp
  from c bad
  have 4: "load_objects_from_json example_loads example_repr ''not json'' = Inl JSONDecodeError"
    by simp
  from 1 2 3 4 show ?thesis by (intro conjI)
qed

end
